(* ===== verification/Prelude.thy ===== *)
theory Prelude
  imports Main "HOL-Library.Word" "HOL-Library.Finite_Map" "HOL-Library.Char_ord"
    "HOL-Library.List_Lexorder" "HOL-Library.Sublist" "HOL-Library.Multiset"
    "HOL-Library.Monad_Syntax"
begin

text \<open>
  What every component shares.

  \<^item> Go strings and byte slices are \<^typ>\<open>string\<close>, lists of 8-bit characters.
    The functions of package \<open>strings\<close> that fold case or test for white space are modelled on
    ASCII text; bytes from 128 on are left alone.
  \<^item> Go maps are finite maps (\<open>fmap\<close>). The order in which \<open>range\<close> yields the
    entries of a map is not specified by the language, so a loop over a map takes the yielded
    sequence as an argument, and \<open>go_range\<close> says which sequences are possible.
  \<^item> Go integers are \<^typ>\<open>int\<close>; a counter that can wrap is a \<open>64 word\<close>.
  \<^item> Errors are values of a sum type, \<open>Inl\<close> for the error.
\<close>

subsection \<open>Hint collections\<close>

named_theorems go_frame \<open>what an operation leaves alone\<close>

subsection \<open>Go maps\<close>

type_synonym ('k, 'v) gomap = "('k, 'v) fmap"
type_synonym headers = "(string, string) gomap"

text \<open>A sequence of entries that \<open>range\<close> over the map may yield.\<close>

definition go_range :: "('k \<times> 'v) list \<Rightarrow> ('k, 'v) gomap \<Rightarrow> bool" where
  "go_range it m \<longleftrightarrow> distinct (map fst it) \<and> fmap_of_list it = m"

lemma fmlookup_fmap_of_list [simp]: "fmlookup (fmap_of_list xs) = map_of xs"
  by (simp add: fmap_of_list.rep_eq)

lemma go_range_mem: "go_range it m \<Longrightarrow> (k, v) \<in> set it \<longleftrightarrow> fmlookup m k = Some v"
  by (auto simp: go_range_def)

lemma go_range_distinct: "go_range it m \<Longrightarrow> distinct it"
  by (simp add: go_range_def distinct_map)

lemma go_range_lookup: "go_range it m \<Longrightarrow> map_of it = fmlookup m"
  by (metis fmlookup_fmap_of_list go_range_def)

lemma go_range_keys: "go_range it m \<Longrightarrow> distinct (map fst it)"
  by (simp add: go_range_def)

lemma go_range_same_mset: "go_range it m \<Longrightarrow> go_range it' m \<Longrightarrow> mset it = mset it'"
proof -
  assume a: "go_range it m" "go_range it' m"
  then have "x \<in> set it \<longleftrightarrow> x \<in> set it'" for x
    by (cases x) (simp add: go_range_mem)
  then have "set it = set it'" by blast
  with a show ?thesis by (simp add: go_range_distinct set_eq_iff_mset_eq_distinct [symmetric])
qed

lemma go_range_empty [simp]: "go_range it fmempty \<longleftrightarrow> it = []"
proof
  assume "go_range it fmempty"
  then show "it = []"
    by (metis fmempty_lookup go_range_mem list.set_intros(1) neq_Nil_conv option.distinct(1) surj_pair)
qed (simp add: go_range_def)

subsection \<open>Lists updated by index\<close>

lemma nth_update: "xs[i := x] ! j = (if i = j \<and> i < length xs then x else xs ! j)"
  by (metis list_update_beyond linorder_not_less nth_list_update)

subsection \<open>Strings\<close>

definition lower_byte :: "char \<Rightarrow> char" where
  "lower_byte c = (if CHR ''A'' \<le> c \<and> c \<le> CHR ''Z'' then char_of (of_char c + 32 :: nat) else c)"

definition upper_byte :: "char \<Rightarrow> char" where
  "upper_byte c = (if CHR ''a'' \<le> c \<and> c \<le> CHR ''z'' then char_of (of_char c - 32 :: nat) else c)"

text \<open>\<open>strings.ToLower\<close>.\<close>

definition to_lower :: "string \<Rightarrow> string" where
  "to_lower s = map lower_byte s"

text \<open>\<open>strings.EqualFold\<close>.\<close>

definition equal_fold :: "string \<Rightarrow> string \<Rightarrow> bool" where
  "equal_fold s t \<longleftrightarrow> to_lower s = to_lower t"

text \<open>\<open>strings.HasPrefix\<close>, \<open>strings.TrimLeft\<close>, \<open>strings.TrimRight\<close>, \<open>strings.TrimSpace\<close>.\<close>

definition has_prefix :: "string \<Rightarrow> string \<Rightarrow> bool" where
  "has_prefix s p \<longleftrightarrow> take (length p) s = p"

definition trim_left :: "string \<Rightarrow> string \<Rightarrow> string" where
  "trim_left s cutset = dropWhile (\<lambda>c. c \<in> set cutset) s"

definition trim_right :: "string \<Rightarrow> string \<Rightarrow> string" where
  "trim_right s cutset = rev (dropWhile (\<lambda>c. c \<in> set cutset) (rev s))"

definition ascii_space :: string where
  "ascii_space = [CHR 0x09, CHR 0x0A, CHR 0x0B, CHR 0x0C, CHR 0x0D, CHR 0x20]"

definition trim_space :: "string \<Rightarrow> string" where
  "trim_space s = trim_right (trim_left s ascii_space) ascii_space"

text \<open>\<open>strings.Split\<close> on a separator of one byte: never the empty list.\<close>

fun split_byte :: "char \<Rightarrow> string \<Rightarrow> string list" where
  "split_byte sep [] = [[]]"
| "split_byte sep (c # s) =
     (if c = sep then [] # split_byte sep s
      else (case split_byte sep s of [] \<Rightarrow> [[c]] | w # ws \<Rightarrow> (c # w) # ws))"

text \<open>\<open>strings.Join\<close>.\<close>

fun join :: "string list \<Rightarrow> string \<Rightarrow> string" where
  "join [] sep = []"
| "join [w] sep = w"
| "join (w # ws) sep = w @ sep @ join ws sep"

text \<open>\<open>strings.Contains\<close>.\<close>

fun contains :: "string \<Rightarrow> string \<Rightarrow> bool" where
  "contains [] sub = (sub = [])"
| "contains (c # s) sub = (has_prefix (c # s) sub \<or> contains s sub)"

lemmas string_defs = to_lower_def equal_fold_def has_prefix_def trim_left_def trim_right_def
  trim_space_def

subsection \<open>Decimal numbers\<close>

definition digit :: "nat \<Rightarrow> char" where
  "digit n = char_of (48 + n)"

fun utoa :: "nat \<Rightarrow> string" where
  "utoa n = (if n < 10 then [digit n] else utoa (n div 10) @ [digit (n mod 10)])"

declare utoa.simps [simp del]

text \<open>\<open>strconv.Itoa\<close>, and the verb \<open>%d\<close>.\<close>

definition itoa :: "int \<Rightarrow> string" where
  "itoa i = (if i < 0 then CHR ''-'' # utoa (nat (- i)) else utoa (nat i))"

definition is_digit :: "char \<Rightarrow> bool" where
  "is_digit c \<longleftrightarrow> CHR ''0'' \<le> c \<and> c \<le> CHR ''9''"

definition digit_val :: "char \<Rightarrow> nat" where
  "digit_val c = of_char c - 48"

definition atou :: "string \<Rightarrow> nat" where
  "atou s = foldl (\<lambda>n c. 10 * n + digit_val c) 0 s"

text \<open>
  \<open>strconv.ParseInt(s, 10, 64)\<close>: an optional sign, then at least one digit, within the range
  of \<open>int64\<close>.
\<close>

definition int64_range :: "int \<Rightarrow> bool" where
  "int64_range i \<longleftrightarrow> - (2 ^ 63) \<le> i \<and> i < 2 ^ 63"

definition parse_digits :: "string \<Rightarrow> nat option" where
  "parse_digits s = (if s \<noteq> [] \<and> list_all is_digit s then Some (atou s) else None)"

definition parse_int :: "string \<Rightarrow> int option" where
  "parse_int s =
     (let i = (case s of
          [] \<Rightarrow> None
        | c # ds \<Rightarrow>
            (if c = CHR ''-'' then map_option (\<lambda>n. - int n) (parse_digits ds)
             else if c = CHR ''+'' then map_option int (parse_digits ds)
             else map_option int (parse_digits s)))
      in (case i of None \<Rightarrow> None | Some i \<Rightarrow> if int64_range i then Some i else None))"

subsection \<open>Facts about strings\<close>

lemma of_char_lower_byte:
  "of_char (lower_byte c) =
     (if 65 \<le> (of_char c :: nat) \<and> of_char c \<le> (90 :: nat) then of_char c + 32 else (of_char c :: nat))"
  by (simp add: lower_byte_def less_eq_char_def)

lemma of_char_upper_byte:
  "of_char (upper_byte c) =
     (if 97 \<le> (of_char c :: nat) \<and> of_char c \<le> (122 :: nat) then of_char c - 32 else (of_char c :: nat))"
proof -
  have "of_char c - 32 < (256 :: nat)"
    by (rule le_less_trans [OF diff_le_self nat_of_char_less_256])
  then show ?thesis by (simp add: upper_byte_def less_eq_char_def)
qed

lemma lower_byte_idem [simp]: "lower_byte (lower_byte c) = lower_byte c"
  by (rule of_char_eqI [where 'a = nat]) (simp only: of_char_lower_byte split: if_splits, simp)

lemma lower_upper_byte [simp]: "lower_byte (upper_byte c) = lower_byte c"
  by (rule of_char_eqI [where 'a = nat])
    (simp only: of_char_lower_byte of_char_upper_byte split: if_splits, auto)

text \<open>Folding one literal byte is setting or clearing bit 5.\<close>

lemma of_char_bit5: "(of_char (Char b0 b1 b2 b3 b4 True b6 b7) :: nat) = of_char (Char b0 b1 b2 b3 b4 False b6 b7) + 32"
  by simp

lemma letter_bits:
  "CHR ''A'' \<le> Char b0 b1 b2 b3 b4 b5 b6 b7 \<Longrightarrow> Char b0 b1 b2 b3 b4 b5 b6 b7 \<le> CHR ''Z'' \<Longrightarrow> \<not> b5"
  "CHR ''a'' \<le> Char b0 b1 b2 b3 b4 b5 b6 b7 \<Longrightarrow> Char b0 b1 b2 b3 b4 b5 b6 b7 \<le> CHR ''z'' \<Longrightarrow> b5"
  by (auto simp: lexordp_eq_simps)

lemma lower_byte_Char [simp, code]:
  "lower_byte (Char b0 b1 b2 b3 b4 b5 b6 b7) =
     (if CHR ''A'' \<le> Char b0 b1 b2 b3 b4 b5 b6 b7 \<and> Char b0 b1 b2 b3 b4 b5 b6 b7 \<le> CHR ''Z''
      then Char b0 b1 b2 b3 b4 True b6 b7 else Char b0 b1 b2 b3 b4 b5 b6 b7)"
proof (cases "CHR ''A'' \<le> Char b0 b1 b2 b3 b4 b5 b6 b7 \<and> Char b0 b1 b2 b3 b4 b5 b6 b7 \<le> CHR ''Z''")
  case True
  then have "\<not> b5" using letter_bits(1) by blast
  with True show ?thesis
    by (simp only: lower_byte_def if_True refl of_char_bit5 [symmetric] char_of_char simp_thms)
next
  case False
  then show ?thesis by (simp only: lower_byte_def if_False)
qed
lemma upper_byte_Char [simp, code]:
  "upper_byte (Char b0 b1 b2 b3 b4 b5 b6 b7) =
     (if CHR ''a'' \<le> Char b0 b1 b2 b3 b4 b5 b6 b7 \<and> Char b0 b1 b2 b3 b4 b5 b6 b7 \<le> CHR ''z''
      then Char b0 b1 b2 b3 b4 False b6 b7 else Char b0 b1 b2 b3 b4 b5 b6 b7)"
proof (cases "CHR ''a'' \<le> Char b0 b1 b2 b3 b4 b5 b6 b7 \<and> Char b0 b1 b2 b3 b4 b5 b6 b7 \<le> CHR ''z''")
  case True
  then have "b5" using letter_bits(2) by blast
  with True show ?thesis
    by (simp only: upper_byte_def if_True refl of_char_bit5 add_diff_cancel_right' char_of_char simp_thms)
next
  case False
  then show ?thesis by (simp only: upper_byte_def if_False)
qed

lemma to_lower_idem [simp]: "to_lower (to_lower s) = to_lower s"
  by (simp add: to_lower_def)

lemma length_to_lower [simp]: "length (to_lower s) = length s"
  by (simp add: to_lower_def)

lemma to_lower_Nil [simp]: "to_lower s = [] \<longleftrightarrow> s = []"
  by (simp add: to_lower_def)

lemma to_lower_append: "to_lower (s @ t) = to_lower s @ to_lower t"
  by (simp add: to_lower_def)

lemma equal_fold_refl [simp]: "equal_fold s s"
  by (simp add: equal_fold_def)

lemma equal_fold_sym: "equal_fold s t \<Longrightarrow> equal_fold t s"
  by (simp add: equal_fold_def)

lemma has_prefix_iff: "has_prefix s p \<longleftrightarrow> (\<exists>r. s = p @ r)"
  unfolding has_prefix_def by (metis append_eq_conv_conj append_take_drop_id)

lemma has_prefix_append [simp]: "has_prefix (p @ r) p"
  by (simp add: has_prefix_def)

lemma split_byte_not_Nil [simp]: "split_byte sep s \<noteq> []"
  by (induction s) (auto split: list.splits)

lemma hd_split_byte: "hd (split_byte sep s) = takeWhile (\<lambda>c. c \<noteq> sep) s"
  by (induction s) (auto split: list.splits)

lemma join_split_byte: "join (split_byte sep s) [sep] = s"
proof (induction s)
  case (Cons c s)
  then show ?case
    by (cases "split_byte sep s"; cases "tl (split_byte sep s)") auto
qed simp

lemma split_byte_no_sep: "w \<in> set (split_byte sep s) \<Longrightarrow> sep \<notin> set w"
  by (induction s arbitrary: w) (auto split: if_splits list.splits)

lemma trim_right_alt: "trim_right s cs = rev (trim_left (rev s) cs)"
  by (simp add: trim_right_def trim_left_def)

lemma trim_left_hd: "trim_left s cs \<noteq> [] \<Longrightarrow> hd (trim_left s cs) \<notin> set cs"
  unfolding trim_left_def by (metis hd_dropWhile)

lemma trim_right_last: "trim_right s cs \<noteq> [] \<Longrightarrow> last (trim_right s cs) \<notin> set cs"
  unfolding trim_right_alt using trim_left_hd [of "rev s" cs] by (simp add: last_rev)

lemma trim_left_decomp: "\<exists>p. s = p @ trim_left s cs \<and> set p \<subseteq> set cs"
  unfolding trim_left_def
  by (metis set_takeWhileD subsetI takeWhile_dropWhile_id)

lemma trim_right_decomp: "\<exists>q. s = trim_right s cs @ q \<and> set q \<subseteq> set cs"
proof -
  obtain p where "rev s = p @ trim_left (rev s) cs" and p: "set p \<subseteq> set cs"
    using trim_left_decomp by blast
  then have "s = trim_right s cs @ rev p"
    by (metis rev_append rev_rev_ident trim_right_alt)
  with p show ?thesis by (metis set_rev)
qed

lemma trim_left_id: "s = [] \<or> hd s \<notin> set cs \<Longrightarrow> trim_left s cs = s"
  by (cases s) (auto simp: trim_left_def)

lemma trim_right_id: "s = [] \<or> last s \<notin> set cs \<Longrightarrow> trim_right s cs = s"
  by (auto simp: trim_right_alt trim_left_id hd_rev)

subsection \<open>Facts about decimal numbers\<close>

lemma digit_literals [simp]:
    "digit 0 = CHR ''0''"
    "digit (Suc 0) = CHR ''1''"
    "digit 2 = CHR ''2''"
    "digit 3 = CHR ''3''"
    "digit 4 = CHR ''4''"
    "digit 5 = CHR ''5''"
    "digit 6 = CHR ''6''"
    "digit 7 = CHR ''7''"
    "digit 8 = CHR ''8''"
    "digit 9 = CHR ''9''"
  by (rule of_char_eqI [where 'a = nat], simp add: digit_def)+

lemma is_digit_digit [simp]: "n < 10 \<Longrightarrow> is_digit (digit n)"
proof -
  have "\<forall>n \<in> set [0..<10]. is_digit (digit n)" by code_simp
  then show "n < 10 \<Longrightarrow> is_digit (digit n)" by (metis atLeastLessThan_iff le0 set_upt)
qed

lemma digit_val_digit [simp]: "n < 10 \<Longrightarrow> digit_val (digit n) = n"
proof -
  have "\<forall>n \<in> set [0..<10]. digit_val (digit n) = n" by code_simp
  then show "n < 10 \<Longrightarrow> digit_val (digit n) = n" by (metis atLeastLessThan_iff le0 set_upt)
qed

lemma is_digit_sign: "\<not> is_digit CHR ''-''" "\<not> is_digit CHR ''+''"
  by (simp_all add: is_digit_def)

lemma utoa_not_Nil [simp]: "utoa n \<noteq> []"
  by (subst utoa.simps) simp

lemma utoa_digits: "list_all is_digit (utoa n)"
proof (induction n rule: utoa.induct)
  case (1 n)
  then show ?case by (cases "n < 10") (simp_all add: utoa.simps [of n])
qed

lemma atou_utoa [simp]: "atou (utoa n) = n"
proof (induction n rule: utoa.induct)
  case (1 n)
  show ?case
  proof (cases "n < 10")
    case False
    then have "atou (utoa n) = 10 * atou (utoa (n div 10)) + n mod 10"
      by (simp add: utoa.simps [of n] atou_def)
    with 1 False show ?thesis by simp
  qed (simp add: utoa.simps [of n] atou_def)
qed

lemma parse_digits_utoa [simp]: "parse_digits (utoa n) = Some n"
  by (simp add: parse_digits_def utoa_digits)

lemma hd_utoa: "is_digit (hd (utoa n))"
  using utoa_digits [of n] by (metis hd_in_set list.pred_set utoa_not_Nil)

lemma parse_int_itoa: "parse_int (itoa i) = (if int64_range i then Some i else None)"
proof (cases "i < 0")
  case True
  then show ?thesis by (simp add: itoa_def parse_int_def)
next
  case False
  obtain c ds where u: "utoa (nat i) = c # ds" by (meson neq_Nil_conv utoa_not_Nil)
  then have "is_digit c" using hd_utoa [of "nat i"] by simp
  then have "c \<noteq> CHR ''-''" "c \<noteq> CHR ''+''" using is_digit_sign by auto
  with False u parse_digits_utoa [of "nat i"] show ?thesis
    by (simp add: itoa_def parse_int_def)
qed

lemma itoa_sign: "hd (itoa i) = CHR ''-'' \<longleftrightarrow> i < 0"
  using hd_utoa [of "nat i"] is_digit_sign by (auto simp: itoa_def)

lemma itoa_inject: "itoa i = itoa j \<Longrightarrow> i = j"
proof -
  assume eq: "itoa i = itoa j"
  then have "i < 0 \<longleftrightarrow> j < 0" by (metis itoa_sign)
  with eq have "utoa (nat \<bar>i\<bar>) = utoa (nat \<bar>j\<bar>)" by (auto simp: itoa_def split: if_splits)
  then have "nat \<bar>i\<bar> = nat \<bar>j\<bar>" by (metis atou_utoa)
  with \<open>i < 0 \<longleftrightarrow> j < 0\<close> show "i = j" by linarith
qed

subsection \<open>Transition systems\<close>

inductive reach :: "('s \<Rightarrow> bool) \<Rightarrow> ('s \<Rightarrow> 's \<Rightarrow> bool) \<Rightarrow> 's \<Rightarrow> bool"
  for init :: "'s \<Rightarrow> bool" and trans :: "'s \<Rightarrow> 's \<Rightarrow> bool" where
  reach_init: "init s \<Longrightarrow> reach init trans s"
| reach_step: "reach init trans s \<Longrightarrow> trans s s' \<Longrightarrow> reach init trans s'"

text \<open>A system whose initial states satisfy an invariant that every step keeps.\<close>

locale invariant_system =
  fixes init :: "'s \<Rightarrow> bool" and trans :: "'s \<Rightarrow> 's \<Rightarrow> bool" and inv :: "'s \<Rightarrow> bool"
  assumes inv_init: "init s \<Longrightarrow> inv s"
    and inv_step: "inv s \<Longrightarrow> trans s s' \<Longrightarrow> inv s'"
begin

lemma reachable_inv: "reach init trans s \<Longrightarrow> inv s"
  by (induction rule: reach.induct) (auto intro: inv_init inv_step)

lemma steps_inv: "trans\<^sup>*\<^sup>* s s' \<Longrightarrow> inv s \<Longrightarrow> inv s'"
  by (induction rule: rtranclp_induct) (auto intro: inv_step)

end

text \<open>Every run that goes on reaches the goal, and none stops before it.\<close>

inductive inevitably :: "('s \<Rightarrow> 's \<Rightarrow> bool) \<Rightarrow> ('s \<Rightarrow> bool) \<Rightarrow> 's \<Rightarrow> bool"
  for trans :: "'s \<Rightarrow> 's \<Rightarrow> bool" and goal :: "'s \<Rightarrow> bool" where
  inevitably_now: "goal s \<Longrightarrow> inevitably trans goal s"
| inevitably_step: "\<exists>s'. trans s s' \<Longrightarrow> (\<And>s'. trans s s' \<Longrightarrow> inevitably trans goal s') \<Longrightarrow> inevitably trans goal s"

text \<open>A stage in which some step is always possible and each one lessens the work left.\<close>

locale winding_system = invariant_system init trans inv
  for init :: "'s \<Rightarrow> bool" and trans :: "'s \<Rightarrow> 's \<Rightarrow> bool" and inv :: "'s \<Rightarrow> bool" +
  fixes stage :: "'s \<Rightarrow> bool" and goal :: "'s \<Rightarrow> bool" and work :: "'s \<Rightarrow> nat"
  assumes progress: "inv s \<Longrightarrow> stage s \<Longrightarrow> \<exists>s'. trans s s'"
    and descent: "inv s \<Longrightarrow> stage s \<Longrightarrow> trans s s' \<Longrightarrow> work s' < work s \<and> (stage s' \<or> goal s')"
begin

lemma stage_inevitable: "inv s \<Longrightarrow> stage s \<Longrightarrow> inevitably trans goal s"
proof (induction "work s" arbitrary: s rule: less_induct)
  case less
  show ?case
  proof (rule inevitably_step)
    show "\<exists>s'. trans s s'" using less.prems by (rule progress)
    show "inevitably trans goal s'" if "trans s s'" for s'
    proof (cases "goal s'")
      case False
      then show ?thesis
        using descent [OF less.prems that] by (intro less.hyps inv_step [OF less.prems(1) that]) simp_all
    qed (rule inevitably_now)
  qed
qed

lemma reachable_inevitable: "reach init trans s \<Longrightarrow> stage s \<Longrightarrow> inevitably trans goal s"
  using reachable_inv stage_inevitable by blast

end

end
