(* ===== verification/Store.thy ===== *)
theory Store
  imports Prelude
begin

text \<open>
  The persistence layer (\<open>internal/store\<close>). The database is the state the SQL statements of
  the package and its schema \<open>migrations/0001_init.sql\<close> describe: one list of rows per table
  in insertion order, and the \<open>AUTOINCREMENT\<close> counters. Each operation is the translation of
  its statement, with the \<open>UNIQUE\<close>, \<open>PRIMARY KEY\<close> and \<open>REFERENCES\<close>
  constraints of the schema as errors.

  \<^item> A statement can fail for a reason outside the schema (disk, lock, driver). The field
    \<open>faults\<close> is the list of outcomes of the coming statements: \<open>True\<close> makes the
    statement fail and change nothing, as SQLite rolls it back.
  \<^item> The clock is an argument, in nanoseconds. A column written by \<open>Format(time.RFC3339)\<close>
    holds the second the text denotes; reading such a text back cannot fail.
  \<^item> \<open>ORDER BY\<close> leaves rows with equal keys in insertion order.
\<close>

subsection \<open>Models (\<open>models.go\<close>)\<close>

datatype store_error = ErrNotFound | DbFault | ConstraintFailed | TableFull

definition RoleAdmin :: string where "RoleAdmin = ''admin''"
definition RoleUser :: string where "RoleUser = ''user''"

record User =
  userID :: int
  userName :: string
  userHash :: string
  userRole :: string
  userDisabled :: bool
  userCreated :: int

definition IsAdmin :: "User \<Rightarrow> bool" where
  "IsAdmin u \<longleftrightarrow> userRole u = RoleAdmin"

record Token =
  tokID :: int
  tokUser :: int
  tokName :: string
  tokHash :: string
  tokCreated :: int
  tokLastUsed :: "int option"
  tokRevoked :: bool

record Session =
  sessID :: string
  sessUser :: int
  sessCreated :: int
  sessExpires :: int

record TunnelEvent =
  evID :: int
  evUser :: int
  evSubdomain :: string
  evRemoteAddr :: string
  evConnected :: int
  evDisconnected :: "int option"

subsection \<open>The database (\<open>store.go\<close>, \<open>migrations/0001_init.sql\<close>)\<close>

record db =
  users :: "User list"
  user_seq :: int
  tokens :: "Token list"
  token_seq :: int
  sessions :: "Session list"
  events :: "TunnelEvent list"
  event_seq :: int
  faults :: "bool list"

definition empty_db :: db where
  "empty_db = \<lparr>users = [], user_seq = 0, tokens = [], token_seq = 0, sessions = [],
     events = [], event_seq = 0, faults = []\<rparr>"

type_synonym 'a outcome = "(store_error + 'a) \<times> db"

text \<open>One statement, under the fault schedule.\<close>

definition sql :: "(db \<Rightarrow> 'a outcome) \<Rightarrow> db \<Rightarrow> 'a outcome" where
  "sql stmt d = (case faults d of
     [] \<Rightarrow> stmt d
   | fault # fs \<Rightarrow>
       (if fault then (Inl DbFault, d\<lparr>faults := fs\<rparr>) else stmt (d\<lparr>faults := fs\<rparr>)))"

text \<open>The rows a \<open>WHERE\<close> selects, changed in place; the row number SQLite takes next.\<close>

definition update_where :: "('r \<Rightarrow> bool) \<Rightarrow> ('r \<Rightarrow> 'r) \<Rightarrow> 'r list \<Rightarrow> 'r list" where
  "update_where P f rows = map (\<lambda>r. if P r then f r else r) rows"

definition seq_full :: "int \<Rightarrow> bool" where
  "seq_full n \<longleftrightarrow> n \<ge> 2 ^ 63 - 1"

definition second :: int where "second = 1000000000"

text \<open>\<open>Format(time.RFC3339)\<close> keeps whole seconds.\<close>

definition stamp :: "int \<Rightarrow> int" where
  "stamp t = t div second"

text \<open>
  \<open>Open\<close>: the three pragmas, then \<open>migrate\<close>, whose one script creates what is
  missing. \<open>disk\<close> is the content of an existing file.
\<close>

definition pragma :: "db \<Rightarrow> unit outcome" where
  "pragma d = sql (\<lambda>d. (Inr (), d)) d"

definition migrate :: "db \<Rightarrow> unit outcome" where
  "migrate d = sql (\<lambda>d. (Inr (), d)) d"

fun run_pragmas :: "nat \<Rightarrow> db \<Rightarrow> unit outcome" where
  "run_pragmas 0 d = (Inr (), d)"
| "run_pragmas (Suc n) d = (case pragma d of
     (Inl e, d') \<Rightarrow> (Inl e, d')
   | (Inr _, d') \<Rightarrow> run_pragmas n d')"

definition Open :: "db option \<Rightarrow> db outcome" where
  "Open disk =
     (let d = (case disk of None \<Rightarrow> empty_db | Some d \<Rightarrow> d) in
      case run_pragmas 3 d of
        (Inl e, d') \<Rightarrow> (Inl e, d')
      | (Inr _, d') \<Rightarrow>
          (case migrate d' of
             (Inl e, d'') \<Rightarrow> (Inl e, d'')
           | (Inr _, d'') \<Rightarrow> (Inr d'', d'')))"

subsection \<open>Users (\<open>users.go\<close>)\<close>

definition CreateUser :: "int \<Rightarrow> db \<Rightarrow> string \<Rightarrow> string \<Rightarrow> string \<Rightarrow> int outcome" where
  "CreateUser now d name hash role = sql (\<lambda>d.
     if seq_full (user_seq d) then (Inl TableFull, d)
     else if name \<in> userName ` set (users d) then (Inl ConstraintFailed, d)
     else (let n = user_seq d + 1 in
       (Inr n, d\<lparr>users := users d @
          [\<lparr>userID = n, userName = name, userHash = hash, userRole = role, userDisabled = False,
            userCreated = stamp now\<rparr>], user_seq := n\<rparr>))) d"

definition CountUsers :: "db \<Rightarrow> int outcome" where
  "CountUsers d = sql (\<lambda>d. (Inr (int (length (users d))), d)) d"

text \<open>\<open>scanUser\<close>: the row, or \<open>ErrNotFound\<close> for no row.\<close>

definition scanUser :: "User option \<Rightarrow> store_error + User" where
  "scanUser row = (case row of None \<Rightarrow> Inl ErrNotFound | Some u \<Rightarrow> Inr u)"

definition GetUserByUsername :: "db \<Rightarrow> string \<Rightarrow> User outcome" where
  "GetUserByUsername d name = sql (\<lambda>d. (scanUser (find (\<lambda>u. userName u = name) (users d)), d)) d"

definition GetUser :: "db \<Rightarrow> int \<Rightarrow> User outcome" where
  "GetUser d i = sql (\<lambda>d. (scanUser (find (\<lambda>u. userID u = i) (users d)), d)) d"

definition ListUsers :: "db \<Rightarrow> User list outcome" where
  "ListUsers d = sql (\<lambda>d. (Inr (sort_key userName (users d)), d)) d"

definition SetUserDisabled :: "db \<Rightarrow> int \<Rightarrow> bool \<Rightarrow> unit outcome" where
  "SetUserDisabled d i b = sql (\<lambda>d.
     (Inr (), d\<lparr>users := update_where (\<lambda>u. userID u = i) (\<lambda>u. u\<lparr>userDisabled := b\<rparr>) (users d)\<rparr>)) d"

definition SetUserPassword :: "db \<Rightarrow> int \<Rightarrow> string \<Rightarrow> unit outcome" where
  "SetUserPassword d i hash = sql (\<lambda>d.
     (Inr (), d\<lparr>users := update_where (\<lambda>u. userID u = i) (\<lambda>u. u\<lparr>userHash := hash\<rparr>) (users d)\<rparr>)) d"

subsection \<open>API tokens (\<open>tokens.go\<close>)\<close>

definition CreateToken :: "int \<Rightarrow> db \<Rightarrow> int \<Rightarrow> string \<Rightarrow> string \<Rightarrow> int outcome" where
  "CreateToken now d uid name hash = sql (\<lambda>d.
     if seq_full (token_seq d) then (Inl TableFull, d)
     else if hash \<in> tokHash ` set (tokens d) \<or> uid \<notin> userID ` set (users d)
       then (Inl ConstraintFailed, d)
     else (let n = token_seq d + 1 in
       (Inr n, d\<lparr>tokens := tokens d @
          [\<lparr>tokID = n, tokUser = uid, tokName = name, tokHash = hash, tokCreated = stamp now,
            tokLastUsed = None, tokRevoked = False\<rparr>], token_seq := n\<rparr>))) d"

definition GetTokenByHash :: "db \<Rightarrow> string \<Rightarrow> Token outcome" where
  "GetTokenByHash d hash = sql (\<lambda>d.
     (case find (\<lambda>t. tokHash t = hash \<and> \<not> tokRevoked t) (tokens d) of
        None \<Rightarrow> Inl ErrNotFound | Some t \<Rightarrow> Inr t, d)) d"

definition ListTokens :: "db \<Rightarrow> int \<Rightarrow> Token list outcome" where
  "ListTokens d uid = sql (\<lambda>d.
     (Inr (sort_key (\<lambda>t. - tokCreated t) (filter (\<lambda>t. tokUser t = uid) (tokens d))), d)) d"

definition TouchToken :: "int \<Rightarrow> db \<Rightarrow> int \<Rightarrow> unit outcome" where
  "TouchToken now d i = sql (\<lambda>d.
     (Inr (), d\<lparr>tokens := update_where (\<lambda>t. tokID t = i) (\<lambda>t. t\<lparr>tokLastUsed := Some (stamp now)\<rparr>) (tokens d)\<rparr>)) d"

definition RevokeToken :: "db \<Rightarrow> int \<Rightarrow> int \<Rightarrow> unit outcome" where
  "RevokeToken d i uid = sql (\<lambda>d.
     (Inr (), d\<lparr>tokens := update_where (\<lambda>t. tokID t = i \<and> tokUser t = uid) (\<lambda>t. t\<lparr>tokRevoked := True\<rparr>) (tokens d)\<rparr>)) d"

subsection \<open>Portal sessions (\<open>sessions.go\<close>)\<close>

definition CreateSession :: "int \<Rightarrow> db \<Rightarrow> string \<Rightarrow> int \<Rightarrow> int \<Rightarrow> unit outcome" where
  "CreateSession now d i uid ttl = sql (\<lambda>d.
     if i \<in> sessID ` set (sessions d) \<or> uid \<notin> userID ` set (users d)
       then (Inl ConstraintFailed, d)
     else (Inr (), d\<lparr>sessions := sessions d @
          [\<lparr>sessID = i, sessUser = uid, sessCreated = stamp now, sessExpires = stamp (now + ttl)\<rparr>]\<rparr>)) d"

definition DeleteSession :: "db \<Rightarrow> string \<Rightarrow> unit outcome" where
  "DeleteSession d i = sql (\<lambda>d. (Inr (), d\<lparr>sessions := filter (\<lambda>s. sessID s \<noteq> i) (sessions d)\<rparr>)) d"

definition DeleteUserSessions :: "db \<Rightarrow> int \<Rightarrow> unit outcome" where
  "DeleteUserSessions d uid = sql (\<lambda>d. (Inr (), d\<lparr>sessions := filter (\<lambda>s. sessUser s \<noteq> uid) (sessions d)\<rparr>)) d"

definition GetSession :: "int \<Rightarrow> db \<Rightarrow> string \<Rightarrow> Session outcome" where
  "GetSession now d i =
     (case sql (\<lambda>d. (case find (\<lambda>s. sessID s = i) (sessions d) of
                       None \<Rightarrow> Inl ErrNotFound | Some s \<Rightarrow> Inr s, d)) d of
        (Inl e, d') \<Rightarrow> (Inl e, d')
      | (Inr s, d') \<Rightarrow>
          (if now > sessExpires s * second then (Inl ErrNotFound, snd (DeleteSession d' i))
           else (Inr s, d')))"

subsection \<open>Connection history (\<open>events.go\<close>)\<close>

definition OpenTunnelEvent :: "int \<Rightarrow> db \<Rightarrow> int \<Rightarrow> string \<Rightarrow> string \<Rightarrow> int outcome" where
  "OpenTunnelEvent now d uid subdomain remote = sql (\<lambda>d.
     if seq_full (event_seq d) then (Inl TableFull, d)
     else if uid \<notin> userID ` set (users d) then (Inl ConstraintFailed, d)
     else (let n = event_seq d + 1 in
       (Inr n, d\<lparr>events := events d @
          [\<lparr>evID = n, evUser = uid, evSubdomain = subdomain, evRemoteAddr = remote,
            evConnected = stamp now, evDisconnected = None\<rparr>], event_seq := n\<rparr>))) d"

definition CloseTunnelEvent :: "int \<Rightarrow> db \<Rightarrow> int \<Rightarrow> unit outcome" where
  "CloseTunnelEvent now d i = sql (\<lambda>d.
     (Inr (), d\<lparr>events := update_where (\<lambda>e. evID e = i) (\<lambda>e. e\<lparr>evDisconnected := Some (stamp now)\<rparr>) (events d)\<rparr>)) d"

definition RecentEventsByUser :: "db \<Rightarrow> int \<Rightarrow> int \<Rightarrow> TunnelEvent list outcome" where
  "RecentEventsByUser d uid limit = sql (\<lambda>d.
     (let rows = sort_key (\<lambda>e. - evConnected e) (filter (\<lambda>e. evUser e = uid) (events d))
      in Inr (if limit < 0 then rows else take (nat limit) rows), d)) d"


subsection \<open>Statements and faults\<close>

text \<open>Two states with the same tables; only the schedule of faults may differ.\<close>

definition same_data :: "db \<Rightarrow> db \<Rightarrow> bool" where
  "same_data d d' \<longleftrightarrow> d'\<lparr>faults := []\<rparr> = d\<lparr>faults := []\<rparr>"

lemma same_data_simps [simp]:
  "same_data d d"
  "same_data d (d\<lparr>faults := fs\<rparr>)"
  "same_data (d\<lparr>faults := fs\<rparr>) d"
  by (simp_all add: same_data_def)

lemma same_data_trans [trans]: "same_data a b \<Longrightarrow> same_data b c \<Longrightarrow> same_data a c"
  by (simp add: same_data_def)

lemma same_data_tables:
  assumes "same_data d d'"
  shows "users d' = users d" "tokens d' = tokens d" "sessions d' = sessions d" "events d' = events d"
    "user_seq d' = user_seq d" "token_seq d' = token_seq d" "event_seq d' = event_seq d"
  using assms by (cases d; cases d'; simp add: same_data_def)+

lemma sql_cases:
  obtains (fault) fs where "sql stmt d = (Inl DbFault, d\<lparr>faults := fs\<rparr>)"
  | (run) fs where "sql stmt d = stmt (d\<lparr>faults := fs\<rparr>)"
proof (cases "faults d")
  case Nil
  then have e: "d\<lparr>faults := []\<rparr> = d" by (cases d) simp
  show ?thesis by (rule run [of "[]"]) (simp add: Nil sql_def e)
next
  case (Cons b fs)
  then show ?thesis by (cases b) (auto simp: sql_def intro: fault run)
qed

lemma sql_inv:
  assumes "\<And>d fs. P d \<Longrightarrow> P (d\<lparr>faults := fs\<rparr>)" "\<And>d. P d \<Longrightarrow> P (snd (stmt d))" "P d"
  shows "P (snd (sql stmt d))"
  using assms by (cases rule: sql_cases [of stmt d]) simp_all

lemma sql_no_faults [simp]: "faults d = [] \<Longrightarrow> sql stmt d = stmt d"
  by (simp add: sql_def)

text \<open>What the schema promises of the tables.\<close>

definition db_wf :: "db \<Rightarrow> bool" where
  "db_wf d \<longleftrightarrow>
     0 \<le> user_seq d \<and> 0 \<le> token_seq d \<and> 0 \<le> event_seq d \<and>
     distinct (map userID (users d)) \<and> (\<forall>u\<in>set (users d). 1 \<le> userID u \<and> userID u \<le> user_seq d) \<and>
     distinct (map userName (users d)) \<and>
     distinct (map tokID (tokens d)) \<and> (\<forall>t\<in>set (tokens d). 1 \<le> tokID t \<and> tokID t \<le> token_seq d) \<and>
     distinct (map tokHash (tokens d)) \<and> tokUser ` set (tokens d) \<subseteq> userID ` set (users d) \<and>
     distinct (map sessID (sessions d)) \<and> sessUser ` set (sessions d) \<subseteq> userID ` set (users d) \<and>
     distinct (map evID (events d)) \<and> (\<forall>e\<in>set (events d). 1 \<le> evID e \<and> evID e \<le> event_seq d) \<and>
     evUser ` set (events d) \<subseteq> userID ` set (users d)"

lemma db_wf_faults [simp]: "db_wf (d\<lparr>faults := fs\<rparr>) = db_wf d"
  by (simp add: db_wf_def)

lemma db_wf_same_data: "same_data d d' \<Longrightarrow> db_wf d' = db_wf d"
  by (metis db_wf_faults same_data_def)

lemma empty_db_wf [simp]: "db_wf empty_db"
  by (simp add: db_wf_def empty_db_def)

lemma map_update_where:
  "(\<And>r. g (f r) = g r) \<Longrightarrow> map g (update_where P f rows) = map g rows"
  by (auto simp: update_where_def)

lemma set_update_where:
  "set (update_where P f rows) = (\<lambda>r. if P r then f r else r) ` set rows"
  by (simp add: update_where_def)

lemma mem_update_where: "r \<in> set rows \<Longrightarrow> P r \<Longrightarrow> f r \<in> set (update_where P f rows)"
  by (auto simp: update_where_def image_iff intro: bexI [of _ r])

lemma image_update_where:
  "(\<And>r. g (f r) = g r) \<Longrightarrow> g ` set (update_where P f rows) = g ` set rows"
  by (induction rows) (simp_all add: update_where_def)

lemma ball_update_where:
  "(\<And>r. Q (f r) = Q r) \<Longrightarrow> (\<forall>r\<in>set (update_where P f rows). Q r) = (\<forall>r\<in>set rows. Q r)"
  by (induction rows) (simp_all add: update_where_def)

lemmas update_where_simps = map_update_where image_update_where ball_update_where

lemma find_unique_key:
  assumes "distinct (map key rows)" "r \<in> set rows"
  shows "find (\<lambda>r'. key r' = key r) rows = Some r"
  using assms by (induction rows) (auto simp: rev_image_eqI)

lemma find_update_where:
  assumes "\<And>r. key (f r) = key r"
  shows "find (\<lambda>r. key r = k) (update_where P f rows) =
    map_option (\<lambda>r. if P r then f r else r) (find (\<lambda>r. key r = k) rows)"
  using assms by (induction rows) (auto simp: update_where_def)

lemma find_append: "find P (xs @ ys) = (case find P xs of None \<Rightarrow> find P ys | Some x \<Rightarrow> Some x)"
  by (induction xs) auto

lemma find_SomeD: "find P xs = Some x \<Longrightarrow> x \<in> set xs \<and> P x"
  by (induction xs) (auto split: if_splits)

lemma find_fresh_key: "k \<notin> key ` set rows \<Longrightarrow> find (\<lambda>r. key r = k) rows = None"
  by (auto simp: find_None_iff)

text \<open>
  The interface of a statement: it keeps the schema's promises, and when it reports an error it
  has changed no table.
\<close>

locale statement =
  fixes stmt :: "db \<Rightarrow> 'a outcome"
  assumes keeps: "db_wf d \<Longrightarrow> db_wf (snd (stmt d))"
    and atomic: "fst (stmt d) = Inl e \<Longrightarrow> same_data d (snd (stmt d))"
begin

lemma keeps_sql: "db_wf d \<Longrightarrow> db_wf (snd (sql stmt d))"
  by (rule sql_cases [of stmt d]) (simp_all add: keeps)

lemma atomic_sql: "fst (sql stmt d) = Inl e \<Longrightarrow> same_data d (snd (sql stmt d))"
proof (rule sql_cases [of stmt d])
  fix fs assume "fst (sql stmt d) = Inl e" "sql stmt d = stmt (d\<lparr>faults := fs\<rparr>)"
  then show ?thesis using atomic same_data_trans same_data_simps(2) by metis
qed simp

text \<open>A statement followed by a continuation that keeps the promises keeps them.\<close>

lemma keeps_then:
  assumes "\<And>x d'. db_wf d' \<Longrightarrow> db_wf (snd (k x d'))" "db_wf d"
  shows "db_wf (snd (case sql stmt d of (Inl e, d') \<Rightarrow> (Inl e, d') | (Inr x, d') \<Rightarrow> k x d'))"
  using assms keeps_sql [OF assms(2)] by (auto split: prod.split sum.split)

end

text \<open>A statement that only reads.\<close>

lemma statement_read: "statement (\<lambda>d. (f d, d))"
  by unfold_locales simp_all


subsection \<open>Every operation is a statement\<close>

text \<open>The bodies of the operations that write, as the operations run them.\<close>

lemmas op_defs = CreateUser_def SetUserDisabled_def SetUserPassword_def CreateToken_def
  TouchToken_def RevokeToken_def CreateSession_def DeleteSession_def DeleteUserSessions_def
  OpenTunnelEvent_def CloseTunnelEvent_def

lemmas read_defs = CountUsers_def GetUserByUsername_def GetUser_def ListUsers_def
  GetTokenByHash_def ListTokens_def RecentEventsByUser_def

text \<open>A statement of the schema that is run under the schedule is one again.\<close>

lemma statement_sql: "statement stmt \<Longrightarrow> statement (sql stmt)"
  by (simp add: statement_def statement.keeps_sql statement.atomic_sql)

lemma fresh_id:
  assumes "\<forall>r\<in>set rows. (1::int) \<le> key r \<and> key r \<le> n"
  shows "n + 1 \<notin> key ` set rows"
    and "\<forall>r\<in>set rows. 1 \<le> key r \<and> key r \<le> n + 1"
  using assms by force+

lemma distinct_map_filter: "distinct (map f xs) \<Longrightarrow> distinct (map f (filter P xs))"
  by (induction xs) auto

interpretation create_user: statement "\<lambda>d. CreateUser now d name hash role"
  for now name hash role
  unfolding CreateUser_def
  by (rule statement_sql, unfold_locales)
    (auto simp: db_wf_def Let_def fresh_id split: if_splits)

interpretation set_user_disabled: statement "\<lambda>d. SetUserDisabled d i b" for i b
  unfolding SetUserDisabled_def
  by (rule statement_sql, unfold_locales) (simp_all add: db_wf_def update_where_simps)

interpretation set_user_password: statement "\<lambda>d. SetUserPassword d i hash" for i hash
  unfolding SetUserPassword_def
  by (rule statement_sql, unfold_locales) (simp_all add: db_wf_def update_where_simps)

interpretation create_token: statement "\<lambda>d. CreateToken now d uid name hash"
  for now uid name hash
  unfolding CreateToken_def
  by (rule statement_sql, unfold_locales)
    (auto simp: db_wf_def Let_def fresh_id split: if_splits)

interpretation touch_token: statement "\<lambda>d. TouchToken now d i" for now i
  unfolding TouchToken_def
  by (rule statement_sql, unfold_locales) (simp_all add: db_wf_def update_where_simps)

interpretation revoke_token: statement "\<lambda>d. RevokeToken d i uid" for i uid
  unfolding RevokeToken_def
  by (rule statement_sql, unfold_locales) (simp_all add: db_wf_def update_where_simps)

interpretation create_session: statement "\<lambda>d. CreateSession now d i uid ttl" for now i uid ttl
  unfolding CreateSession_def
  by (rule statement_sql, unfold_locales) (auto simp: db_wf_def split: if_splits)

interpretation delete_session: statement "\<lambda>d. DeleteSession d i" for i
  unfolding DeleteSession_def
  by (rule statement_sql, unfold_locales) (auto simp: db_wf_def distinct_map_filter)

interpretation delete_user_sessions: statement "\<lambda>d. DeleteUserSessions d uid" for uid
  unfolding DeleteUserSessions_def
  by (rule statement_sql, unfold_locales) (auto simp: db_wf_def distinct_map_filter)

interpretation open_event: statement "\<lambda>d. OpenTunnelEvent now d uid sub remote"
  for now uid sub remote
  unfolding OpenTunnelEvent_def
  by (rule statement_sql, unfold_locales)
    (auto simp: db_wf_def Let_def fresh_id split: if_splits)

interpretation close_event: statement "\<lambda>d. CloseTunnelEvent now d i" for now i
  unfolding CloseTunnelEvent_def
  by (rule statement_sql, unfold_locales) (simp_all add: db_wf_def update_where_simps)

lemma statement_reads:
  "statement CountUsers" "statement (\<lambda>d. GetUserByUsername d name)" "statement (\<lambda>d. GetUser d i)"
  "statement ListUsers" "statement (\<lambda>d. GetTokenByHash d hash)" "statement (\<lambda>d. ListTokens d i)"
  "statement (\<lambda>d. RecentEventsByUser d i n)"
  by (simp_all add: read_defs [abs_def] statement_sql statement_read cong del: if_weak_cong)

lemma get_session_keeps: "db_wf d \<Longrightarrow> db_wf (snd (GetSession now d i))"
  unfolding GetSession_def
  by (rule statement.keeps_then [OF statement_read]) (simp_all add: delete_session.keeps)

subsection \<open>Any sequence of operations\<close>

text \<open>The operations of the store, each with the clock it runs at.\<close>

datatype store_call =
    CallCreateUser string string string
  | CallSetUserDisabled int bool
  | CallSetUserPassword int string
  | CallCreateToken int string string
  | CallTouchToken int
  | CallRevokeToken int int
  | CallCreateSession string int int
  | CallGetSession string
  | CallDeleteSession string
  | CallDeleteUserSessions int
  | CallOpenTunnelEvent int string string
  | CallCloseTunnelEvent int
  | CallCountUsers
  | CallGetUserByUsername string
  | CallGetUser int
  | CallListUsers
  | CallGetTokenByHash string
  | CallListTokens int
  | CallRecentEvents int int

fun store_step :: "int \<times> store_call \<Rightarrow> db \<Rightarrow> db" where
  "store_step (now, CallCreateUser n h r) d = snd (CreateUser now d n h r)"
| "store_step (now, CallSetUserDisabled i b) d = snd (SetUserDisabled d i b)"
| "store_step (now, CallSetUserPassword i h) d = snd (SetUserPassword d i h)"
| "store_step (now, CallCreateToken u n h) d = snd (CreateToken now d u n h)"
| "store_step (now, CallTouchToken i) d = snd (TouchToken now d i)"
| "store_step (now, CallRevokeToken i u) d = snd (RevokeToken d i u)"
| "store_step (now, CallCreateSession i u ttl) d = snd (CreateSession now d i u ttl)"
| "store_step (now, CallGetSession i) d = snd (GetSession now d i)"
| "store_step (now, CallDeleteSession i) d = snd (DeleteSession d i)"
| "store_step (now, CallDeleteUserSessions u) d = snd (DeleteUserSessions d u)"
| "store_step (now, CallOpenTunnelEvent u s r) d = snd (OpenTunnelEvent now d u s r)"
| "store_step (now, CallCloseTunnelEvent i) d = snd (CloseTunnelEvent now d i)"
| "store_step (now, CallCountUsers) d = snd (CountUsers d)"
| "store_step (now, CallGetUserByUsername n) d = snd (GetUserByUsername d n)"
| "store_step (now, CallGetUser i) d = snd (GetUser d i)"
| "store_step (now, CallListUsers) d = snd (ListUsers d)"
| "store_step (now, CallGetTokenByHash h) d = snd (GetTokenByHash d h)"
| "store_step (now, CallListTokens i) d = snd (ListTokens d i)"
| "store_step (now, CallRecentEvents i n) d = snd (RecentEventsByUser d i n)"

definition store_run :: "(int \<times> store_call) list \<Rightarrow> db \<Rightarrow> db" where
  "store_run calls d = fold store_step calls d"

text \<open>A property every operation keeps, whatever the schedule of faults, holds after any sequence.\<close>

lemma store_run_induct:
  assumes "P d" "\<And>c d. P d \<Longrightarrow> P (store_step c d)"
  shows "P (store_run calls d)"
  using assms unfolding store_run_def by (induction calls arbitrary: d) auto

lemma store_run_simps [simp]:
  "store_run [] d = d"
  "store_run (c # cs) d = store_run cs (store_step c d)"
  "store_run (cs @ cs') d = store_run cs' (store_run cs d)"
  by (simp_all add: store_run_def)

lemma store_step_wf: "db_wf d \<Longrightarrow> db_wf (store_step c d)"
  by (induction c d rule: store_step.induct)
    (simp_all add: create_user.keeps set_user_disabled.keeps set_user_password.keeps
      create_token.keeps touch_token.keeps revoke_token.keeps create_session.keeps
      get_session_keeps delete_session.keeps delete_user_sessions.keeps open_event.keeps
      close_event.keeps statement.keeps [OF statement_reads(1)] statement.keeps [OF statement_reads(2)]
      statement.keeps [OF statement_reads(3)] statement.keeps [OF statement_reads(4)]
      statement.keeps [OF statement_reads(5)] statement.keeps [OF statement_reads(6)]
      statement.keeps [OF statement_reads(7)])

lemma store_run_wf: "db_wf d \<Longrightarrow> db_wf (store_run calls d)"
  by (rule store_run_induct) (simp_all add: store_step_wf)

text \<open>What an operation leaves of the table of tokens: hashes stay, owners stay, revoked stays.\<close>

definition token_kept :: "Token \<Rightarrow> db \<Rightarrow> bool" where
  "token_kept t d \<longleftrightarrow> (\<exists>t'\<in>set (tokens d). tokID t' = tokID t \<and> tokUser t' = tokUser t
     \<and> tokHash t' = tokHash t \<and> (tokRevoked t \<longrightarrow> tokRevoked t'))"

lemma token_kept_faults [simp]: "token_kept t (d\<lparr>faults := fs\<rparr>) = token_kept t d"
  by (simp add: token_kept_def)

lemma sql_token_kept:
  "(\<And>d. token_kept t d \<Longrightarrow> token_kept t (snd (stmt d))) \<Longrightarrow> token_kept t d \<Longrightarrow> token_kept t (snd (sql stmt d))"
  by (rule sql_inv [where P = "token_kept t"]) simp_all

lemma token_kept_where:
  assumes "token_kept t d" "\<And>t. tokID (f t) = tokID t" "\<And>t. tokUser (f t) = tokUser t"
    "\<And>t. tokHash (f t) = tokHash t" "\<And>t. tokRevoked t \<Longrightarrow> tokRevoked (f t)"
  shows "token_kept t (d\<lparr>tokens := update_where P f (tokens d)\<rparr>)"
proof -
  obtain t' where "t' \<in> set (tokens d)" "tokID t' = tokID t" "tokUser t' = tokUser t"
    "tokHash t' = tokHash t" "tokRevoked t \<longrightarrow> tokRevoked t'"
    using assms(1) by (auto simp: token_kept_def)
  then show ?thesis
    using assms(2-) unfolding token_kept_def
    by (intro bexI [of _ "if P t' then f t' else t'"]) (auto simp: update_where_def)
qed

lemma token_kept_tables: "tokens d' = tokens d \<Longrightarrow> token_kept t d \<Longrightarrow> token_kept t d'"
  by (simp add: token_kept_def)

lemma token_kept_ops:
  assumes "token_kept t d"
  shows "token_kept t (snd (CreateUser now d n h r))"
    "token_kept t (snd (SetUserDisabled d i b))"
    "token_kept t (snd (SetUserPassword d i h))"
    "token_kept t (snd (CreateToken now d u n h))"
    "token_kept t (snd (TouchToken now d i))"
    "token_kept t (snd (RevokeToken d i u))"
    "token_kept t (snd (CreateSession now d s u ttl))"
    "token_kept t (snd (DeleteSession d s))"
    "token_kept t (snd (DeleteUserSessions d u))"
    "token_kept t (snd (OpenTunnelEvent now d u n h))"
    "token_kept t (snd (CloseTunnelEvent now d i))"
  using assms unfolding op_defs
  by (auto intro!: sql_token_kept token_kept_where simp: Let_def)
    (auto simp: token_kept_def)

lemma token_kept_reads:
  assumes "token_kept t d"
  shows "token_kept t (snd (CountUsers d))" "token_kept t (snd (GetUserByUsername d n))"
    "token_kept t (snd (GetUser d i))" "token_kept t (snd (ListUsers d))"
    "token_kept t (snd (GetTokenByHash d n))" "token_kept t (snd (ListTokens d i))"
    "token_kept t (snd (RecentEventsByUser d i j))"
  using assms unfolding read_defs by (auto intro!: sql_token_kept)

lemma get_session_cases:
  obtains (kept) "same_data d (snd (GetSession now d i))"
  | (expired) d' where "same_data d d'" "snd (GetSession now d i) = snd (DeleteSession d' i)"
      "fst (GetSession now d i) = Inl ErrNotFound"
  unfolding GetSession_def
  by (cases "sessExpires (the (find (\<lambda>s. sessID s = i) (sessions d))) * second < now";
      rule sql_cases [of "\<lambda>d. (case find (\<lambda>s. sessID s = i) (sessions d) of
        None \<Rightarrow> Inl ErrNotFound | Some s \<Rightarrow> Inr s, d)" d])
    (auto split: option.splits sum.splits prod.splits, metis same_data_simps(2))

lemma token_kept_get_session: "token_kept t d \<Longrightarrow> token_kept t (snd (GetSession now d i))"
  by (rule get_session_cases [of d now i])
    (auto simp: token_kept_ops(8) token_kept_tables same_data_tables)

lemma store_step_token_kept: "token_kept t d \<Longrightarrow> token_kept t (store_step c d)"
  by (induction c d rule: store_step.induct)
    (simp_all add: token_kept_ops token_kept_reads token_kept_get_session)

lemma store_run_token_kept: "token_kept t d \<Longrightarrow> token_kept t (store_run calls d)"
  by (rule store_run_induct) (simp_all add: store_step_token_kept)

subsection \<open>Tables an operation does not touch\<close>

lemma sql_users: "(\<And>d. users (snd (stmt d)) = users d) \<Longrightarrow> users (snd (sql stmt d)) = users d"
  by (cases rule: sql_cases [of stmt d]) simp_all

lemma sql_tokens: "(\<And>d. tokens (snd (stmt d)) = tokens d) \<Longrightarrow> tokens (snd (sql stmt d)) = tokens d"
  by (cases rule: sql_cases [of stmt d]) simp_all

lemma users_frame [go_frame]:
  "users (snd (CreateToken now d u n h)) = users d"
  "users (snd (TouchToken now d i)) = users d"
  "users (snd (RevokeToken d i u)) = users d"
  "users (snd (CreateSession now d s u ttl)) = users d"
  "users (snd (DeleteSession d s)) = users d"
  "users (snd (DeleteUserSessions d u)) = users d"
  "users (snd (OpenTunnelEvent now d u n h)) = users d"
  "users (snd (CloseTunnelEvent now d i)) = users d"
  unfolding op_defs by (rule sql_users; simp add: Let_def)+

lemma tokens_frame [go_frame]:
  "tokens (snd (CreateUser now d n h r)) = tokens d"
  "tokens (snd (SetUserDisabled d i b)) = tokens d"
  "tokens (snd (SetUserPassword d i h)) = tokens d"
  "tokens (snd (CreateSession now d s u ttl)) = tokens d"
  "tokens (snd (DeleteSession d s)) = tokens d"
  "tokens (snd (DeleteUserSessions d u)) = tokens d"
  "tokens (snd (OpenTunnelEvent now d u n h)) = tokens d"
  "tokens (snd (CloseTunnelEvent now d i)) = tokens d"
  unfolding op_defs by (rule sql_tokens; simp add: Let_def)+

lemma get_session_frame [go_frame]:
  "users (snd (GetSession now d i)) = users d" "tokens (snd (GetSession now d i)) = tokens d"
  by (rule get_session_cases [of d now i]; simp add: same_data_tables users_frame tokens_frame)+

lemma read_frame [go_frame]:
  "users (snd (CountUsers d)) = users d" "users (snd (GetUserByUsername d n)) = users d"
  "users (snd (GetUser d i)) = users d" "users (snd (ListUsers d)) = users d"
  "users (snd (GetTokenByHash d n)) = users d" "users (snd (ListTokens d i)) = users d"
  "users (snd (RecentEventsByUser d i j)) = users d"
  "tokens (snd (CountUsers d)) = tokens d" "tokens (snd (GetUserByUsername d n)) = tokens d"
  "tokens (snd (GetUser d i)) = tokens d" "tokens (snd (ListUsers d)) = tokens d"
  "tokens (snd (GetTokenByHash d n)) = tokens d" "tokens (snd (ListTokens d i)) = tokens d"
  "tokens (snd (RecentEventsByUser d i j)) = tokens d"
  unfolding read_defs by ((rule sql_users sql_tokens); simp)+

subsection \<open>Lookups\<close>

lemma GetTokenByHash_SomeD:
  assumes "fst (GetTokenByHash d h) = Inr t"
  shows "t \<in> set (tokens d)" "tokHash t = h" "\<not> tokRevoked t"
  using assms find_SomeD unfolding GetTokenByHash_def
  by (cases rule: sql_cases [of "\<lambda>d. (case find (\<lambda>t. tokHash t = h \<and> \<not> tokRevoked t) (tokens d) of
        None \<Rightarrow> Inl ErrNotFound | Some t \<Rightarrow> Inr t, d)" d];
      fastforce split: option.splits)+

lemma GetUser_SomeD:
  assumes "fst (GetUser d i) = Inr u"
  shows "u \<in> set (users d)" "userID u = i"
  using assms find_SomeD unfolding GetUser_def scanUser_def
  by (cases rule: sql_cases [of "\<lambda>d. (case find (\<lambda>u. userID u = i) (users d) of
        None \<Rightarrow> Inl ErrNotFound | Some u \<Rightarrow> Inr u, d)" d];
      fastforce split: option.splits)+

lemma read_same_data:
  "same_data d (snd (CountUsers d))" "same_data d (snd (GetUserByUsername d n))"
  "same_data d (snd (GetUser d i))" "same_data d (snd (ListUsers d))"
  "same_data d (snd (GetTokenByHash d n))" "same_data d (snd (ListTokens d i))"
  "same_data d (snd (RecentEventsByUser d i j))"
  unfolding read_defs by (auto simp: sql_def split: list.splits)

lemma find_by_hash:
  assumes "db_wf d" "t \<in> set (tokens d)"
  shows "find (\<lambda>t'. tokHash t' = tokHash t \<and> \<not> tokRevoked t') (tokens d) =
    (if tokRevoked t then None else Some t)"
proof -
  have d: "distinct (map tokHash (tokens d))" using assms(1) by (simp add: db_wf_def)
  have "find (\<lambda>t'. tokHash t' = tokHash t \<and> \<not> tokRevoked t') ts = (if tokRevoked t then None else Some t)"
    if "distinct (map tokHash ts)" "t \<in> set ts" for ts
    using that by (induction ts) (auto simp: find_None_iff rev_image_eqI)
  then show ?thesis using d assms(2) .
qed

lemma revoked_not_found:
  assumes "db_wf d" "token_kept t d" "tokRevoked t"
  shows "\<exists>e. fst (GetTokenByHash d (tokHash t)) = Inl e"
proof -
  obtain t' where t': "t' \<in> set (tokens d)" "tokHash t' = tokHash t" "tokRevoked t'"
    using assms(2,3) by (auto simp: token_kept_def)
  show ?thesis
  proof (cases "fst (GetTokenByHash d (tokHash t))")
    case (Inr x)
    then have "find (\<lambda>r. tokHash r = tokHash t' \<and> \<not> tokRevoked r) (tokens d) \<noteq> None"
      using GetTokenByHash_SomeD [of d "tokHash t" x] t' by (auto simp: find_None_iff)
    then show ?thesis using find_by_hash [OF assms(1) t'(1)] t'(3) by simp
  qed simp
qed

lemma revoke_marks:
  assumes "t \<in> set (tokens d)" "fst (RevokeToken d (tokID t) (tokUser t)) = Inr ()"
  shows "token_kept (t\<lparr>tokRevoked := True\<rparr>) (snd (RevokeToken d (tokID t) (tokUser t)))"
proof (cases rule: sql_cases [of "\<lambda>d. (Inr (), d\<lparr>tokens := update_where
    (\<lambda>r. tokID r = tokID t \<and> tokUser r = tokUser t) (\<lambda>r. r\<lparr>tokRevoked := True\<rparr>) (tokens d)\<rparr>)" d])
  case (fault fs)
  then show ?thesis using assms(2) by (simp add: RevokeToken_def)
next
  case (run fs)
  then show ?thesis
    using mem_update_where [OF assms(1), of "\<lambda>r. tokID r = tokID t \<and> tokUser r = tokUser t"
      "\<lambda>r. r\<lparr>tokRevoked := True\<rparr>"]
    by (auto simp: RevokeToken_def token_kept_def intro: bexI [of _ "t\<lparr>tokRevoked := True\<rparr>"])
qed

lemma revoke_other_owner:
  assumes "db_wf d" "t \<in> set (tokens d)" "tokUser t \<noteq> uid"
  shows "same_data d (snd (RevokeToken d (tokID t) uid))"
proof -
  have u: "update_where (\<lambda>r. tokID r = tokID t \<and> tokUser r = uid) f (tokens d) = tokens d" for f
    using assms unfolding update_where_def
    by (intro map_idI) (auto simp: db_wf_def distinct_map inj_on_def)
  show ?thesis unfolding RevokeToken_def
    by (rule sql_cases [of "\<lambda>d. (Inr (), d\<lparr>tokens := update_where
      (\<lambda>r. tokID r = tokID t \<and> tokUser r = uid) (\<lambda>r. r\<lparr>tokRevoked := True\<rparr>) (tokens d)\<rparr>)" d])
      (auto simp: u same_data_def)
qed

lemma session_after_create:
  assumes "CreateSession now d i uid ttl = (Inr (), d1)"
  shows "find (\<lambda>s. sessID s = i) (sessions d1) =
    Some \<lparr>sessID = i, sessUser = uid, sessCreated = stamp now, sessExpires = stamp (now + ttl)\<rparr>"
  using assms unfolding CreateSession_def
  by (cases rule: sql_cases [of "\<lambda>d. if i \<in> sessID ` set (sessions d) \<or> uid \<notin> userID ` set (users d)
       then (Inl ConstraintFailed, d)
     else (Inr (), d\<lparr>sessions := sessions d @
          [\<lparr>sessID = i, sessUser = uid, sessCreated = stamp now, sessExpires = stamp (now + ttl)\<rparr>]\<rparr>)" d])
    (auto simp: find_append find_fresh_key split: if_splits)

subsection \<open>A disabled user stays disabled\<close>

definition locked :: "int \<Rightarrow> db \<Rightarrow> bool" where
  "locked i d \<longleftrightarrow> (\<forall>u\<in>set (users d). userID u = i \<longrightarrow> userDisabled u) \<and> i \<le> user_seq d"

lemma locked_faults [simp]: "locked i (d\<lparr>faults := fs\<rparr>) = locked i d"
  by (simp add: locked_def)

lemma locked_tables: "users d' = users d \<Longrightarrow> user_seq d' = user_seq d \<Longrightarrow> locked i d \<Longrightarrow> locked i d'"
  by (simp add: locked_def)

lemma sql_locked:
  "(\<And>d. locked i d \<Longrightarrow> locked i (snd (stmt d))) \<Longrightarrow> locked i d \<Longrightarrow> locked i (snd (sql stmt d))"
  by (rule sql_inv [where P = "locked i"]) simp_all

lemma locked_where:
  assumes "locked i d" "\<And>u. userID (f u) = userID u" "\<And>u. P u \<Longrightarrow> userID u = i \<Longrightarrow> userDisabled u \<Longrightarrow> userDisabled (f u)"
  shows "locked i (d\<lparr>users := update_where P f (users d)\<rparr>)"
  using assms by (auto simp: locked_def update_where_def)

lemma locked_ops:
  assumes "locked i d"
  shows "locked i (snd (CreateUser now d n h r))"
    "k \<noteq> i \<or> b \<Longrightarrow> locked i (snd (SetUserDisabled d k b))"
    "locked i (snd (SetUserPassword d k h))"
    "locked i (snd (CreateToken now d u n h))"
    "locked i (snd (TouchToken now d k))"
    "locked i (snd (RevokeToken d k u))"
    "locked i (snd (CreateSession now d s u ttl))"
    "locked i (snd (DeleteSession d s))"
    "locked i (snd (DeleteUserSessions d u))"
    "locked i (snd (OpenTunnelEvent now d u n h))"
    "locked i (snd (CloseTunnelEvent now d k))"
  using assms unfolding op_defs
  by (auto intro!: sql_locked locked_where simp: Let_def)
    (auto simp: locked_def)

lemma locked_reads:
  assumes "locked i d"
  shows "locked i (snd (CountUsers d))" "locked i (snd (GetUserByUsername d n))"
    "locked i (snd (GetUser d k))" "locked i (snd (ListUsers d))"
    "locked i (snd (GetTokenByHash d n))" "locked i (snd (ListTokens d k))"
    "locked i (snd (RecentEventsByUser d k j))"
  using assms unfolding read_defs by (auto intro!: sql_locked)

lemma locked_get_session: "locked i d \<Longrightarrow> locked i (snd (GetSession now d s))"
  by (rule get_session_cases [of d now s])
    (auto simp: locked_ops(8) locked_tables same_data_tables)

lemma store_step_locked:
  "locked i d \<Longrightarrow> snd c \<noteq> CallSetUserDisabled i False \<Longrightarrow> locked i (store_step c d)"
  by (induction c d rule: store_step.induct)
    (auto simp: locked_ops locked_reads locked_get_session)

lemma store_run_locked:
  assumes "locked i d" "CallSetUserDisabled i False \<notin> snd ` set calls"
  shows "locked i (store_run calls d)"
  using assms unfolding store_run_def
  by (induction calls arbitrary: d) (auto simp: store_step_locked)

lemma disable_locks:
  assumes "db_wf d" "u \<in> set (users d)" "fst (SetUserDisabled d (userID u) True) = Inr ()"
  shows "locked (userID u) (snd (SetUserDisabled d (userID u) True))"
proof (cases rule: sql_cases [of "\<lambda>d. (Inr (), d\<lparr>users := update_where
    (\<lambda>r. userID r = userID u) (\<lambda>r. r\<lparr>userDisabled := True\<rparr>) (users d)\<rparr>)" d])
  case (fault fs)
  then show ?thesis using assms(3) by (simp add: SetUserDisabled_def)
next
  case (run fs)
  then show ?thesis
    using assms(1,2) by (auto simp: SetUserDisabled_def locked_def update_where_def db_wf_def)
qed

subsection \<open>Properties\<close>

text \<open>
  C5. Whatever sequence of store operations runs on a new database, and whichever statements fail
  on the way, the tables keep the schema's promises: ids are unique and were handed out by their
  counters, user names, token hashes and session ids are unique, and every token, session and
  event belongs to an existing user.
\<close>

theorem store_invariant: "db_wf (store_run calls (empty_db\<lparr>faults := fs\<rparr>))"
  by (rule store_run_wf) simp

end
