(* ===== verification/Http.thy ===== *)
theory Http
  imports Prelude
begin

text \<open>
  What the program uses of \<open>net/http\<close>: the parts of a request its handlers read, and a
  response writer. Header maps are keyed by canonical names, as the server fills them.

  \<^item> A request's form is the parsed one (\<open>url.Values\<close>); its body is \<open>None\<close> when
    reading it fails.
  \<^item> \<open>WriteHeader\<close> panics on a code outside 100..999, sends a 1xx code at once without
    ending the header, and is ignored when the header is already sent. A body is not written for
    a status that has none, nor beyond a \<open>Content-Length\<close> the handler declared.
  \<^item> Cookies set on a response are kept as records; their textual form is not modelled.
\<close>

subsection \<open>Header names\<close>

definition is_alpha :: "char \<Rightarrow> bool" where
  "is_alpha c \<longleftrightarrow> (CHR ''A'' \<le> c \<and> c \<le> CHR ''Z'') \<or> (CHR ''a'' \<le> c \<and> c \<le> CHR ''z'')"

definition token_char :: "char \<Rightarrow> bool" where
  "token_char c \<longleftrightarrow> is_alpha c \<or> is_digit c
     \<or> c \<in> set (CHR 0x27 # CHR 0x60 # ''!#$%&*+-.^_|~'')"

fun canon_from :: "bool \<Rightarrow> string \<Rightarrow> string" where
  "canon_from up [] = []"
| "canon_from up (c # s) =
     (let c' = (if up then upper_byte c else lower_byte c) in c' # canon_from (c' = CHR ''-'') s)"

text \<open>\<open>CanonicalMIMEHeaderKey\<close>: a name with a byte that no name may have is left alone.\<close>

definition canonical_key :: "string \<Rightarrow> string" where
  "canonical_key s = (if list_all token_char s then canon_from True s else s)"

type_synonym http_header = "(string, string list) gomap"

definition header_get :: "http_header \<Rightarrow> string \<Rightarrow> string" where
  "header_get h k = (case fmlookup h (canonical_key k) of
     Some (v # vs) \<Rightarrow> v | _ \<Rightarrow> [])"

definition header_set :: "string \<Rightarrow> string \<Rightarrow> http_header \<Rightarrow> http_header" where
  "header_set k v h = fmupd (canonical_key k) [v] h"

definition header_add :: "string \<Rightarrow> string \<Rightarrow> http_header \<Rightarrow> http_header" where
  "header_add k v h = (let c = canonical_key k in
     fmupd c ((case fmlookup h c of None \<Rightarrow> [] | Some vs \<Rightarrow> vs) @ [v]) h)"

definition header_del :: "string \<Rightarrow> http_header \<Rightarrow> http_header" where
  "header_del k h = fmdrop (canonical_key k) h"

lemma header_get_set [simp]: "header_get (header_set k v h) k = v"
  by (simp add: header_get_def header_set_def)

subsection \<open>Requests\<close>

record Request =
  rMethod :: string
  rHost :: string
  rURI :: string
  rHeader :: http_header
  rBody :: "string option"
  rForm :: "(string, string list) gomap"
  rRemoteAddr :: string
  rPathID :: string

definition FormValue :: "Request \<Rightarrow> string \<Rightarrow> string" where
  "FormValue r k = (case fmlookup (rForm r) k of Some (v # vs) \<Rightarrow> v | _ \<Rightarrow> [])"

text \<open>\<open>textproto.TrimString\<close> and \<open>strings.Cut\<close> at one byte.\<close>

definition trim_string :: "string \<Rightarrow> string" where
  "trim_string s = (let sp = [CHR 0x20, CHR 0x09, CHR 0x0A, CHR 0x0D] in trim_right (trim_left s sp) sp)"

definition cut :: "char \<Rightarrow> string \<Rightarrow> string \<times> string" where
  "cut sep s = (takeWhile (\<lambda>c. c \<noteq> sep) s, drop 1 (dropWhile (\<lambda>c. c \<noteq> sep) s))"

text \<open>\<open>parseCookieValue\<close>: one pair of double quotes is removed; the rest must be cookie bytes.\<close>

definition cookie_byte :: "char \<Rightarrow> bool" where
  "cookie_byte c \<longleftrightarrow> CHR 0x20 \<le> c \<and> c < CHR 0x7F \<and> c \<noteq> CHR 0x22 \<and> c \<noteq> CHR '';''
     \<and> c \<noteq> CHR 0x5C"

definition cookie_value :: "string \<Rightarrow> string option" where
  "cookie_value raw =
     (let v = (if length raw > 1 \<and> hd raw = CHR 0x22 \<and> last raw = CHR 0x22
               then butlast (tl raw) else raw)
      in if list_all cookie_byte v then Some v else None)"

definition cookie_pair :: "string \<Rightarrow> string \<Rightarrow> string option" where
  "cookie_pair name part = (case cut (CHR ''='') (trim_string part) of
     (n, v) \<Rightarrow> if trim_string n = name \<and> name \<noteq> [] \<and> list_all token_char name then cookie_value v else None)"

fun first_some :: "('a \<Rightarrow> 'b option) \<Rightarrow> 'a list \<Rightarrow> 'b option" where
  "first_some f [] = None"
| "first_some f (x # xs) = (case f x of Some y \<Rightarrow> Some y | None \<Rightarrow> first_some f xs)"

text \<open>\<open>r.Cookie(name)\<close>: the value of the first well formed pair of that name.\<close>

definition Cookie :: "Request \<Rightarrow> string \<Rightarrow> string option" where
  "Cookie r name = first_some (cookie_pair name)
     (concat (map (\<lambda>line. split_byte (CHR '';'') (trim_string line))
       (case fmlookup (rHeader r) ''Cookie'' of None \<Rightarrow> [] | Some ls \<Rightarrow> ls)))"

subsection \<open>The response writer\<close>

record CookieRec =
  ckName :: string
  ckValue :: string
  ckPath :: string
  ckHttpOnly :: bool
  ckSecure :: bool
  ckSameSiteLax :: bool
  ckExpires :: "int option"
  ckMaxAge :: int

record Writer =
  wHeader :: http_header
  wSent :: "(int \<times> http_header) option"
  wInterim :: "(int \<times> http_header) list"
  wBody :: string
  wCookies :: "CookieRec list"
  wPanicked :: bool

definition new_writer :: Writer where
  "new_writer = \<lparr>wHeader = fmempty, wSent = None, wInterim = [], wBody = [], wCookies = [], wPanicked = False\<rparr>"

definition set_header :: "string \<Rightarrow> string \<Rightarrow> Writer \<Rightarrow> Writer" where
  "set_header k v w = w\<lparr>wHeader := header_set k v (wHeader w)\<rparr>"

definition WriteHeader :: "int \<Rightarrow> Writer \<Rightarrow> Writer" where
  "WriteHeader code w =
     (if wPanicked w \<or> wSent w \<noteq> None then w
      else if code < 100 \<or> 999 < code then w\<lparr>wPanicked := True\<rparr>
      else if code \<le> 199 \<and> code \<noteq> 101 then w\<lparr>wInterim := wInterim w @ [(code, wHeader w)]\<rparr>
      else w\<lparr>wSent := Some (code, wHeader w)\<rparr>)"

definition body_allowed :: "int \<Rightarrow> bool" where
  "body_allowed code \<longleftrightarrow> \<not> (100 \<le> code \<and> code \<le> 199) \<and> code \<noteq> 204 \<and> code \<noteq> 304"

text \<open>The length a handler declared, when it is a number that is not negative.\<close>

definition declared_length :: "http_header \<Rightarrow> int option" where
  "declared_length h = (case parse_int (header_get h ''Content-Length'') of
     Some n \<Rightarrow> if 0 \<le> n then Some n else None | None \<Rightarrow> None)"

text \<open>\<open>Write\<close>; the result says whether the bytes were taken.\<close>

definition Write :: "string \<Rightarrow> Writer \<Rightarrow> bool \<times> Writer" where
  "Write b w0 =
     (let w = (if wSent w0 = None then WriteHeader 200 w0 else w0) in
      case wSent w of
        None \<Rightarrow> (False, w)
      | Some (code, h) \<Rightarrow>
          (if wPanicked w then (False, w)
           else if b = [] then (True, w)
           else if \<not> body_allowed code then (False, w)
           else (case declared_length h of
               Some n \<Rightarrow> if int (length (wBody w @ b)) > n then (False, w)
                        else (True, w\<lparr>wBody := wBody w @ b\<rparr>)
             | None \<Rightarrow> (True, w\<lparr>wBody := wBody w @ b\<rparr>))))"

definition SetCookie :: "CookieRec \<Rightarrow> Writer \<Rightarrow> Writer" where
  "SetCookie c w = w\<lparr>wCookies := wCookies w @ [c]\<rparr>"

definition StatusOK :: int where "StatusOK = 200"
definition StatusSeeOther :: int where "StatusSeeOther = 303"
definition StatusBadRequest :: int where "StatusBadRequest = 400"
definition StatusUnauthorized :: int where "StatusUnauthorized = 401"
definition StatusForbidden :: int where "StatusForbidden = 403"
definition StatusInternalServerError :: int where "StatusInternalServerError = 500"
definition StatusBadGateway :: int where "StatusBadGateway = 502"
definition StatusServiceUnavailable :: int where "StatusServiceUnavailable = 503"

lemmas status_defs = StatusOK_def StatusSeeOther_def StatusBadRequest_def StatusUnauthorized_def
  StatusForbidden_def StatusInternalServerError_def StatusBadGateway_def StatusServiceUnavailable_def

definition Error :: "string \<Rightarrow> int \<Rightarrow> Writer \<Rightarrow> Writer" where
  "Error msg code w =
     snd (Write (msg @ [CHR 0x0A])
       (WriteHeader code
         (set_header ''X-Content-Type-Options'' ''nosniff''
           (set_header ''Content-Type'' ''text/plain; charset=utf-8''
             (w\<lparr>wHeader := header_del ''Content-Length'' (wHeader w)\<rparr>)))))"

text \<open>\<open>http.Redirect\<close> to a path from the root, with the body a browser that asked by GET gets.\<close>

definition Redirect :: "Request \<Rightarrow> string \<Rightarrow> int \<Rightarrow> Writer \<Rightarrow> Writer" where
  "Redirect r url code w =
     (let had = fmlookup (wHeader w) ''Content-Type'' \<noteq> None;
          get = rMethod r \<in> {''GET'', ''HEAD''};
          w1 = set_header ''Location'' url w;
          w2 = (if \<not> had \<and> get then set_header ''Content-Type'' ''text/html; charset=utf-8'' w1 else w1);
          w3 = WriteHeader code w2
      in if \<not> had \<and> rMethod r = ''GET''
         then snd (Write (''<a href='' @ [CHR 0x22] @ url @ [CHR 0x22] @ ''>See Other</a>.'' @ [CHR 0x0A, CHR 0x0A]) w3)
         else w3)"

definition sent_status :: "Writer \<Rightarrow> int option" where
  "sent_status w = map_option fst (wSent w)"

lemma WriteHeader_sent [simp]:
  "wSent w = None \<Longrightarrow> \<not> wPanicked w \<Longrightarrow> 200 \<le> code \<Longrightarrow> code \<le> 999 \<Longrightarrow>
    WriteHeader code w = w\<lparr>wSent := Some (code, wHeader w)\<rparr>"
  by (simp add: WriteHeader_def)

lemma Write_sent [simp]: "wSent w \<noteq> None \<Longrightarrow> wSent (snd (Write b w)) = wSent w"
  by (auto simp: Write_def Let_def split: option.splits)

lemma Write_cookies [simp]: "wCookies (snd (Write b w)) = wCookies w"
  by (auto simp: Write_def WriteHeader_def Let_def split: option.splits)

lemma Error_status:
  "wSent w = None \<Longrightarrow> \<not> wPanicked w \<Longrightarrow> 200 \<le> code \<Longrightarrow> code \<le> 999 \<Longrightarrow>
    sent_status (Error msg code w) = Some code"
  by (simp add: Error_def sent_status_def set_header_def)

lemma Error_cookies [simp]: "wCookies (Error msg code w) = wCookies w"
  by (simp add: Error_def set_header_def WriteHeader_def)

lemma Redirect_status:
  "wSent w = None \<Longrightarrow> \<not> wPanicked w \<Longrightarrow> 200 \<le> code \<Longrightarrow> code \<le> 999 \<Longrightarrow>
    sent_status (Redirect r url code w) = Some code"
  by (simp add: Redirect_def sent_status_def set_header_def Let_def)

lemma Redirect_cookies [simp]: "wCookies (Redirect r url code w) = wCookies w"
  by (simp add: Redirect_def set_header_def WriteHeader_def Let_def)

lemma new_writer_fresh: "wSent new_writer = None" "\<not> wPanicked new_writer"
  by (simp_all add: new_writer_def)

lemma unauthorized_range: "(200::int) \<le> 401" "(401::int) \<le> 999"
  by simp_all

end
