(* ===== verification/Auth.thy ===== *)
theory Auth
  imports Store Http
begin

text \<open>
  Authentication (\<open>internal/auth\<close>): password hashing, API tokens, portal sessions and the
  guards of the portal routes. \<open>Env\<close> holds what a call takes from outside: the clock, the
  32 bytes \<open>rand.Read\<close> delivers (\<open>None\<close> when it fails), SHA-256 and the two
  functions of the bcrypt package, the hash for a cost and a password and the comparison.
\<close>

record Env =
  now :: int
  entropy :: "string option"
  sha256 :: "string \<Rightarrow> string"
  bcrypt_generate :: "string \<Rightarrow> int \<Rightarrow> string option"
  bcrypt_matches :: "string \<Rightarrow> string \<Rightarrow> bool"

datatype auth_error = NoCookie | FromStore store_error | UserDisabledErr

subsection \<open>Passwords (\<open>password.go\<close>)\<close>

definition bcryptCost :: int where "bcryptCost = 12"

definition HashPassword :: "Env \<Rightarrow> string \<Rightarrow> string option" where
  "HashPassword e password = bcrypt_generate e password bcryptCost"

definition CheckPassword :: "Env \<Rightarrow> string \<Rightarrow> string \<Rightarrow> bool" where
  "CheckPassword e hash password = bcrypt_matches e hash password"

subsection \<open>Tokens and session ids (\<open>token.go\<close>, \<open>session.go\<close>)\<close>

definition nibble_digit :: "nat \<Rightarrow> char" where
  "nibble_digit n = (if n < 10 then char_of (48 + n) else char_of (87 + n))"

text \<open>\<open>hex.EncodeToString\<close>.\<close>

definition hex_encode :: "string \<Rightarrow> string" where
  "hex_encode s = concat (map (\<lambda>c. [nibble_digit (of_char c div 16), nibble_digit (of_char c mod 16)]) s)"

definition HashToken :: "Env \<Rightarrow> string \<Rightarrow> string" where
  "HashToken e plaintext = hex_encode (sha256 e plaintext)"

definition GenerateToken :: "Env \<Rightarrow> (string \<times> string) option" where
  "GenerateToken e = (case entropy e of
     None \<Rightarrow> None
   | Some buf \<Rightarrow> (let plaintext = hex_encode buf in Some (plaintext, HashToken e plaintext)))"

definition SessionCookieName :: string where "SessionCookieName = ''ntunl_session''"

definition SessionTTL :: int where "SessionTTL = 7 * 24 * 3600 * second"

definition NewSessionID :: "Env \<Rightarrow> string option" where
  "NewSessionID e = (case entropy e of None \<Rightarrow> None | Some buf \<Rightarrow> Some (hex_encode buf))"

subsection \<open>The authenticator (\<open>middleware.go\<close>)\<close>

definition userFromCookie :: "Env \<Rightarrow> db \<Rightarrow> Request \<Rightarrow> (auth_error + User) \<times> db" where
  "userFromCookie e d r =
     (case Cookie r SessionCookieName of
        None \<Rightarrow> (Inl NoCookie, d)
      | Some c \<Rightarrow>
          (case GetSession (now e) d c of
             (Inl er, d1) \<Rightarrow> (Inl (FromStore er), d1)
           | (Inr sess, d1) \<Rightarrow>
               (case GetUser d1 (sessUser sess) of
                  (Inl er, d2) \<Rightarrow> (Inl (FromStore er), d2)
                | (Inr user, d2) \<Rightarrow>
                    (if userDisabled user then (Inl UserDisabledErr, d2) else (Inr user, d2)))))"

text \<open>
  A handler runs in an environment, with the user the request context carries, and changes the
  database and the response.
\<close>

type_synonym reply = "db \<times> Writer"
type_synonym handler = "Env \<Rightarrow> User option \<Rightarrow> Request \<Rightarrow> reply \<Rightarrow> reply"

definition RequireAuth :: "handler \<Rightarrow> handler" where
  "RequireAuth nxt e ctx r s =
     (case userFromCookie e (fst s) r of
        (Inl _, d) \<Rightarrow> (d, Redirect r ''/login'' StatusSeeOther (snd s))
      | (Inr user, d) \<Rightarrow> nxt e (Some user) r (d, snd s))"

definition RequireAdmin :: "handler \<Rightarrow> handler" where
  "RequireAdmin nxt = RequireAuth (\<lambda>e ctx r s.
     (case ctx of
        None \<Rightarrow> (fst s, Error ''forbidden'' StatusForbidden (snd s))
      | Some u \<Rightarrow>
          (if \<not> IsAdmin u then (fst s, Error ''forbidden'' StatusForbidden (snd s))
           else nxt e ctx r s)))"

definition ResolveToken :: "Env \<Rightarrow> db \<Rightarrow> string \<Rightarrow> (auth_error + User) \<times> db" where
  "ResolveToken e d plaintext =
     (case GetTokenByHash d (HashToken e plaintext) of
        (Inl er, d1) \<Rightarrow> (Inl (FromStore er), d1)
      | (Inr tok, d1) \<Rightarrow>
          (case GetUser d1 (tokUser tok) of
             (Inl er, d2) \<Rightarrow> (Inl (FromStore er), d2)
           | (Inr user, d2) \<Rightarrow>
               (if userDisabled user then (Inl UserDisabledErr, d2)
                else (Inr user, snd (TouchToken (now e) d2 (tokID tok))))))"

definition BearerToken :: "Request \<Rightarrow> string" where
  "BearerToken r =
     (let h = header_get (rHeader r) ''Authorization''; prefix = ''Bearer '' in
      if has_prefix h prefix then trim_space (drop (length prefix) h) else [])"

subsection \<open>Who a token stands for\<close>

lemma user_by_id:
  assumes "db_wf d" "u \<in> set (users d)"
  shows "find (\<lambda>u'. userID u' = userID u) (users d) = Some u"
  using assms find_unique_key by (fastforce simp: db_wf_def)

lemma ResolveToken_SomeD:
  assumes "fst (ResolveToken e d p) = Inr u"
  shows "u \<in> set (users d)" "\<not> userDisabled u"
    "\<exists>t\<in>set (tokens d). tokHash t = HashToken e p \<and> \<not> tokRevoked t \<and> tokUser t = userID u"
proof -
  obtain tok d1 where a: "GetTokenByHash d (HashToken e p) = (Inr tok, d1)"
    using assms by (auto simp: ResolveToken_def split: prod.splits sum.splits)
  obtain d2 where b: "GetUser d1 (tokUser tok) = (Inr u, d2)" and c: "\<not> userDisabled u"
    using assms a by (auto simp: ResolveToken_def split: prod.splits sum.splits if_splits)
  have s: "users d1 = users d"
    using read_same_data(5) [of d "HashToken e p"] a by (simp add: same_data_tables)
  show "u \<in> set (users d)" using GetUser_SomeD [of d1 "tokUser tok" u] b s by simp
  show "\<not> userDisabled u" by (rule c)
  show "\<exists>t\<in>set (tokens d). tokHash t = HashToken e p \<and> \<not> tokRevoked t \<and> tokUser t = userID u"
    using GetTokenByHash_SomeD [of d "HashToken e p" tok] a GetUser_SomeD(2) [of d1 "tokUser tok" u] b
    by auto
qed

lemma ResolveToken_live:
  assumes "db_wf d" "faults d = []" "t \<in> set (tokens d)" "\<not> tokRevoked t" "tokHash t = HashToken e p"
    "u \<in> set (users d)" "userID u = tokUser t" "\<not> userDisabled u"
  shows "ResolveToken e d p = (Inr u, snd (TouchToken (now e) d (tokID t)))"
proof -
  have "GetTokenByHash d (HashToken e p) = (Inr t, d)"
    using find_by_hash [OF assms(1,3)] assms(2,4,5) by (simp add: GetTokenByHash_def)
  moreover have "GetUser d (tokUser t) = (Inr u, d)"
    using user_by_id [OF assms(1,6)] assms(2,7) by (simp add: GetUser_def scanUser_def)
  ultimately show ?thesis using assms(8) by (simp add: ResolveToken_def)
qed

lemma ResolveToken_keeps:
  assumes "db_wf d"
  shows "db_wf (snd (ResolveToken e d p))"
proof -
  note k = statement.keeps [OF statement_reads(5)] statement.keeps [OF statement_reads(3)] touch_token.keeps
  obtain x d1 where a: "GetTokenByHash d (HashToken e p) = (x, d1)" by fastforce
  have d1: "db_wf d1" using k(1) [OF assms, of "HashToken e p"] a by simp
  show ?thesis
  proof (cases x)
    case (Inr tok)
    obtain y d2 where b: "GetUser d1 (tokUser tok) = (y, d2)" by fastforce
    have "db_wf d2" using k(2) [OF d1, of "tokUser tok"] b by simp
    then show ?thesis using a b Inr k(3) by (simp add: ResolveToken_def split: sum.split)
  qed (simp add: ResolveToken_def a d1)
qed

subsection \<open>Who a cookie stands for\<close>

lemma GetSession_SomeD:
  assumes "GetSession n d i = (Inr s, d')"
  shows "s \<in> set (sessions d)" "sessID s = i" "n \<le> sessExpires s * second" "same_data d d'"
  using assms find_SomeD unfolding GetSession_def
  by (cases rule: sql_cases [of "\<lambda>d. (case find (\<lambda>s. sessID s = i) (sessions d) of
        None \<Rightarrow> Inl ErrNotFound | Some s \<Rightarrow> Inr s, d)" d];
      fastforce split: option.splits if_splits)+

lemma userFromCookie_SomeD:
  assumes "userFromCookie e d r = (Inr u, d')"
  obtains s where "s \<in> set (sessions d)" "Cookie r SessionCookieName = Some (sessID s)"
    "now e \<le> sessExpires s * second" "userID u = sessUser s" "u \<in> set (users d)" "\<not> userDisabled u"
    "same_data d d'"
proof -
  obtain c where c: "Cookie r SessionCookieName = Some c"
    using assms by (auto simp: userFromCookie_def split: option.splits)
  obtain s d1 where s: "GetSession (now e) d c = (Inr s, d1)"
    using assms c by (auto simp: userFromCookie_def split: prod.splits sum.splits)
  have g: "GetUser d1 (sessUser s) = (Inr u, d')" and ud: "\<not> userDisabled u"
    using assms c s by (auto simp: userFromCookie_def split: prod.splits sum.splits if_splits)
  note gs = GetSession_SomeD [OF s]
  have u: "u \<in> set (users d1)" "userID u = sessUser s"
    using GetUser_SomeD [of d1 "sessUser s" u] g by simp_all
  have "same_data d d'"
    using same_data_trans [OF gs(4)] read_same_data(3) [of d1 "sessUser s"] g by simp
  then show thesis using that [of s] gs u ud c same_data_tables(1) [OF gs(4)] by simp
qed

text \<open>A failed lookup removes at most sessions.\<close>

lemma userFromCookie_db:
  obtains "same_data d (snd (userFromCookie e d r))"
  | d1 c where "same_data d d1" "snd (userFromCookie e d r) = snd (DeleteSession d1 c)"
proof -
  have *: "same_data d' (snd (GetUser d' i))" for d' i by (rule read_same_data)
  show thesis
  proof (cases "Cookie r SessionCookieName")
    case None
    then show ?thesis using that(1) by (simp add: userFromCookie_def)
  next
    case (Some c)
    show ?thesis
    proof (cases "fst (GetSession (now e) d c)")
      case (Inl er)
      then have "snd (userFromCookie e d r) = snd (GetSession (now e) d c)"
        using Some by (auto simp: userFromCookie_def split: prod.splits)
      then show ?thesis using that get_session_cases [of d "now e" c] by metis
    next
      case (Inr s)
      then obtain d1 where g: "GetSession (now e) d c = (Inr s, d1)" by (metis prod.collapse)
      then have "snd (userFromCookie e d r) = snd (GetUser d1 (sessUser s))"
        using Some by (auto simp: userFromCookie_def split: prod.splits sum.splits)
      then show ?thesis using that(1) same_data_trans [OF GetSession_SomeD(4) [OF g]] * by metis
    qed
  qed
qed

lemma userFromCookie_keeps: "db_wf d \<Longrightarrow> db_wf (snd (userFromCookie e d r))"
  by (rule userFromCookie_db [of d e r]) (auto simp: db_wf_same_data delete_session.keeps)

lemma userFromCookie_tables:
  "users (snd (userFromCookie e d r)) = users d" "tokens (snd (userFromCookie e d r)) = tokens d"
  "events (snd (userFromCookie e d r)) = events d"
  by (rule userFromCookie_db [of d e r];
      auto simp: same_data_tables DeleteSession_def sql_def split: list.splits)+

subsection \<open>The interface of a guard\<close>

text \<open>
  What a route relies on: the guarded handler runs only for a user the cookie stands for and the
  guard admits, in the state the lookup leaves, and in no other case is the database touched
  further.
\<close>

locale guard =
  fixes wrap :: "handler \<Rightarrow> handler"
    and admits :: "User \<Rightarrow> bool"
  assumes pass: "userFromCookie e (fst s) r = (Inr u, d) \<Longrightarrow> admits u \<Longrightarrow>
      wrap nxt e ctx r s = nxt e (Some u) r (d, snd s)"
    and refuse: "userFromCookie e (fst s) r = (Inr u, d) \<Longrightarrow> \<not> admits u \<Longrightarrow>
      fst (wrap nxt e ctx r s) = d"
    and stop: "userFromCookie e (fst s) r = (Inl er, d) \<Longrightarrow> fst (wrap nxt e ctx r s) = d"
begin

lemma admitted:
  assumes "fst (wrap nxt e ctx r s) \<noteq> snd (userFromCookie e (fst s) r)"
  obtains u d where "userFromCookie e (fst s) r = (Inr u, d)" "admits u"
    "wrap nxt e ctx r s = nxt e (Some u) r (d, snd s)"
proof -
  obtain x d where x: "userFromCookie e (fst s) r = (x, d)" by fastforce
  show thesis
  proof (cases x)
    case (Inl er)
    then show ?thesis using assms stop x by simp
  next
    case (Inr u)
    then show ?thesis using assms refuse pass x that by (cases "admits u") auto
  qed
qed

text \<open>A guarded handler keeps what the lookup keeps and the handler keeps for admitted users.\<close>

lemma keeps:
  assumes "I (snd (userFromCookie e (fst s) r))"
    and "\<And>u d. userFromCookie e (fst s) r = (Inr u, d) \<Longrightarrow> admits u \<Longrightarrow> I d \<Longrightarrow>
      I (fst (nxt e (Some u) r (d, snd s)))"
  shows "I (fst (wrap nxt e ctx r s))"
proof (cases "fst (wrap nxt e ctx r s) = snd (userFromCookie e (fst s) r)")
  case False
  then show ?thesis using admitted assms by (metis snd_conv)
qed (simp add: assms(1))

lemma keeps_wf:
  assumes "db_wf (fst s)" "\<And>u d. db_wf d \<Longrightarrow> db_wf (fst (nxt e (Some u) r (d, snd s)))"
  shows "db_wf (fst (wrap nxt e ctx r s))"
  by (rule keeps) (simp_all add: assms userFromCookie_keeps)

end

text \<open>A guard that admits administrators only.\<close>

locale admin_guard = guard +
  assumes admits_admin: "admits u \<Longrightarrow> IsAdmin u"
begin

lemma only_admins:
  assumes "fst (wrap nxt e ctx r s) \<noteq> snd (userFromCookie e (fst s) r)"
  shows "\<exists>u\<in>set (users (fst s)). IsAdmin u \<and> \<not> userDisabled u \<and>
    userFromCookie e (fst s) r = (Inr u, snd (userFromCookie e (fst s) r))"
proof -
  obtain u d where u: "userFromCookie e (fst s) r = (Inr u, d)" "admits u"
    using admitted [OF assms] by blast
  then show ?thesis
    using userFromCookie_SomeD [OF u(1)] admits_admin [OF u(2)] by (auto intro!: bexI [of _ u])
qed

end

interpretation require_auth: guard RequireAuth "\<lambda>u. True"
  by unfold_locales (simp_all add: RequireAuth_def)

interpretation require_admin: admin_guard RequireAdmin IsAdmin
  by unfold_locales (simp_all add: RequireAdmin_def RequireAuth_def)

subsection \<open>Locked users\<close>

lemma locked_no_token: "locked i d \<Longrightarrow> fst (ResolveToken e d p) = Inr u \<Longrightarrow> userID u \<noteq> i"
  using ResolveToken_SomeD by (fastforce simp: locked_def)

lemma locked_no_cookie: "locked i d \<Longrightarrow> fst (userFromCookie e d r) = Inr u \<Longrightarrow> userID u \<noteq> i"
  by (metis locked_def prod.collapse userFromCookie_SomeD)

lemma revoked_unresolved:
  assumes "db_wf d" "token_kept t d" "tokRevoked t" "tokHash t = HashToken e p"
  shows "\<exists>er. fst (ResolveToken e d p) = Inl er"
  using revoked_not_found [OF assms(1-3)] assms(4)
  by (auto simp: ResolveToken_def split: prod.splits sum.splits)

subsection \<open>Properties\<close>

text \<open>
  C6. Without database faults, a token resolves to a user exactly when some stored token that is
  not revoked has its hash and belongs to that user, and the user is not disabled.
\<close>

theorem token_resolves_iff:
  assumes "db_wf d" "faults d = []"
  shows "fst (ResolveToken e d p) = Inr u \<longleftrightarrow>
    u \<in> set (users d) \<and> \<not> userDisabled u \<and>
    (\<exists>t\<in>set (tokens d). tokHash t = HashToken e p \<and> \<not> tokRevoked t \<and> tokUser t = userID u)"
  using ResolveToken_live [OF assms] ResolveToken_SomeD by fastforce

text \<open>
  C7. Once its owner has revoked a token, no later sequence of store operations, with any
  database faults, makes it resolve again.
\<close>

theorem revoked_forever:
  assumes "db_wf d" "t \<in> set (tokens d)" "tokHash t = HashToken e p"
    and "fst (RevokeToken d (tokID t) (tokUser t)) = Inr ()"
  shows "\<exists>er. fst (ResolveToken e
    (store_run calls (snd (RevokeToken d (tokID t) (tokUser t)))) p) = Inl er"
proof (rule revoked_unresolved [where t = "t\<lparr>tokRevoked := True\<rparr>"])
  show "db_wf (store_run calls (snd (RevokeToken d (tokID t) (tokUser t))))"
    by (simp add: store_run_wf revoke_token.keeps assms(1))
  show "token_kept (t\<lparr>tokRevoked := True\<rparr>) (store_run calls (snd (RevokeToken d (tokID t) (tokUser t))))"
    by (rule store_run_token_kept [OF revoke_marks [OF assms(2,4)]])
qed (simp_all add: assms(3))

text \<open>
  C8. Once a user is disabled, and until a call enables that user again, no token and no session
  cookie stands for the user, whatever else runs on the store.
\<close>

theorem disabled_locked_out:
  assumes "db_wf d" "u \<in> set (users d)" "fst (SetUserDisabled d (userID u) True) = Inr ()"
    and "CallSetUserDisabled (userID u) False \<notin> snd ` set calls"
    and "d' = store_run calls (snd (SetUserDisabled d (userID u) True))" "userID v = userID u"
  shows "fst (ResolveToken e d' p) \<noteq> Inr v \<and> fst (userFromCookie e d' r) \<noteq> Inr v"
proof -
  have "locked (userID u) d'"
    unfolding assms(5) by (rule store_run_locked [OF disable_locks [OF assms(1-3)] assms(4)])
  then show ?thesis using assms(6) by (metis locked_no_token locked_no_cookie)
qed

subsection \<open>Concrete runs\<close>

definition sample_env :: Env where
  "sample_env = \<lparr>now = 5 * second, entropy = Some ''ab'', sha256 = (\<lambda>s. rev s),
     bcrypt_generate = (\<lambda>p c. Some (CHR ''#'' # p)), bcrypt_matches = (\<lambda>h p. h = CHR ''#'' # p)\<rparr>"

definition alice :: User where
  "alice = \<lparr>userID = 1, userName = ''alice'', userHash = ''#wonderland'', userRole = ''user'',
     userDisabled = False, userCreated = 0\<rparr>"

definition sample_token :: Token where
  "sample_token = \<lparr>tokID = 1, tokUser = 1, tokName = ''cli'', tokHash = HashToken sample_env ''tok'',
     tokCreated = 0, tokLastUsed = None, tokRevoked = False\<rparr>"

definition sample_db :: db where
  "sample_db = empty_db\<lparr>users := [alice], user_seq := 1, tokens := [sample_token], token_seq := 1\<rparr>"

lemma sample_db_simps [simp]:
  "users sample_db = [alice]" "tokens sample_db = [sample_token]" "faults sample_db = []"
  "sessions sample_db = []" "events sample_db = []"
  "user_seq sample_db = 1" "token_seq sample_db = 1" "event_seq sample_db = 0"
  "userID alice = 1" "\<not> userDisabled alice" "tokID sample_token = 1" "tokUser sample_token = 1"
  "\<not> tokRevoked sample_token" "tokHash sample_token = HashToken sample_env ''tok''"
  by (simp_all add: sample_db_def empty_db_def alice_def sample_token_def)

lemma sample_db_wf: "db_wf sample_db"
  by (simp add: db_wf_def)

lemma token_resolves_iff_witness: "fst (ResolveToken sample_env sample_db ''tok'') = Inr alice"
  using token_resolves_iff [OF sample_db_wf, of sample_env "''tok''" alice] by simp

lemma revoked_forever_witness:
  "\<exists>er. fst (ResolveToken sample_env (store_run [(0, CallCreateToken 1 ''x'' (tokHash sample_token))]
    (snd (RevokeToken sample_db 1 1))) ''tok'') = Inl er"
  using revoked_forever [OF sample_db_wf, of sample_token sample_env "''tok''"]
  by (simp add: RevokeToken_def del: store_run_simps)

lemma disabled_locked_out_witness:
  "fst (ResolveToken sample_env (store_run [(0, CallSetUserDisabled 2 False)]
    (snd (SetUserDisabled sample_db 1 True))) ''tok'') \<noteq> Inr alice"
  using disabled_locked_out [OF sample_db_wf, of alice "[(0, CallSetUserDisabled 2 False)]" _ alice sample_env "''tok''"]
  by (auto simp: SetUserDisabled_def simp del: store_run_simps)

end
