(* ===== verification/Base64.thy ===== *)
theory Base64
  imports Prelude
begin

text \<open>
  The standard base64 alphabet with padding, as \<open>encoding/json\<close> applies it to the
  \<open>[]byte\<close> fields \<open>Content\<close> of the request and response payloads
  (\<open>internal/protocol/dto.go\<close>). The decoder skips carriage returns and newlines, wants
  the padding, and does not look at the unused low bits of the last group, as
  \<open>base64.StdEncoding\<close> does.
\<close>

definition b64_char :: "nat \<Rightarrow> char" where
  "b64_char n =
     (if n < 26 then char_of (65 + n)
      else if n < 52 then char_of (97 + (n - 26))
      else if n < 62 then char_of (48 + (n - 52))
      else if n = 62 then CHR ''+'' else CHR ''/'')"

definition b64_val :: "char \<Rightarrow> nat option" where
  "b64_val c =
     (let n = of_char c :: nat in
      if 65 \<le> n \<and> n \<le> 90 then Some (n - 65)
      else if 97 \<le> n \<and> n \<le> 122 then Some (n - 97 + 26)
      else if 48 \<le> n \<and> n \<le> 57 then Some (n - 48 + 52)
      else if c = CHR ''+'' then Some 62
      else if c = CHR ''/'' then Some 63 else None)"

fun b64_encode :: "string \<Rightarrow> string" where
  "b64_encode [] = []"
| "b64_encode [a] =
     (let x = of_char a :: nat in
      [b64_char (x div 4), b64_char (x mod 4 * 16), CHR ''='', CHR ''=''])"
| "b64_encode [a, b] =
     (let x = of_char a :: nat; y = of_char b :: nat in
      [b64_char (x div 4), b64_char (x mod 4 * 16 + y div 16), b64_char (y mod 16 * 4), CHR ''=''])"
| "b64_encode (a # b # c # r) =
     (let x = of_char a :: nat; y = of_char b :: nat; z = of_char c :: nat in
      [b64_char (x div 4), b64_char (x mod 4 * 16 + y div 16),
       b64_char (y mod 16 * 4 + z div 64), b64_char (z mod 64)] @ b64_encode r)"

fun b64_quanta :: "string \<Rightarrow> string option" where
  "b64_quanta [] = Some []"
| "b64_quanta (a # b # c # d # r) =
     (case (b64_val a, b64_val b) of
        (Some x, Some y) \<Rightarrow>
          (if c = CHR ''='' then
             (if d = CHR ''='' \<and> r = [] then Some [char_of (x * 4 + y div 16)] else None)
           else (case b64_val c of
               None \<Rightarrow> None
             | Some z \<Rightarrow>
                 (if d = CHR ''='' then
                    (if r = [] then Some [char_of (x * 4 + y div 16), char_of (y mod 16 * 16 + z div 4)]
                     else None)
                  else (case b64_val d of
                      None \<Rightarrow> None
                    | Some w \<Rightarrow>
                        map_option (append [char_of (x * 4 + y div 16),
                            char_of (y mod 16 * 16 + z div 4), char_of (z mod 4 * 64 + w)])
                          (b64_quanta r)))))
      | _ \<Rightarrow> None)"
| "b64_quanta _ = None"

definition b64_decode :: "string \<Rightarrow> string option" where
  "b64_decode s = b64_quanta (filter (\<lambda>c. c \<noteq> CHR 0x0D \<and> c \<noteq> CHR 0x0A) s)"

subsection \<open>The alphabet\<close>

lemma of_char_b64_char:
  "n < 64 \<Longrightarrow> (of_char (b64_char n) :: nat) =
     (if n < 26 then 65 + n else if n < 52 then 71 + n else if n < 62 then n - 4
      else if n = 62 then 43 else 47)"
  by (simp add: b64_char_def)

lemma b64_val_nat:
  "b64_val c =
     (let n = of_char c :: nat in
      if 65 \<le> n \<and> n \<le> 90 then Some (n - 65)
      else if 97 \<le> n \<and> n \<le> 122 then Some (n - 71)
      else if 48 \<le> n \<and> n \<le> 57 then Some (n + 4)
      else if n = 43 then Some 62
      else if n = 47 then Some 63 else None)"
proof -
  have "c = CHR ''+'' \<longleftrightarrow> of_char c = (43 :: nat)" "c = CHR ''/'' \<longleftrightarrow> of_char c = (47 :: nat)"
    by (simp_all flip: of_char_eq_iff [where 'a = nat])
  then show ?thesis by (simp add: b64_val_def Let_def)
qed

lemma b64_alphabet:
  assumes "n < 64"
  shows "b64_val (b64_char n) = Some n" "b64_char n \<noteq> CHR ''=''"
    "b64_char n \<noteq> CHR 0x0D" "b64_char n \<noteq> CHR 0x0A"
proof -
  have n: "(of_char (b64_char n) :: nat) =
     (if n < 26 then 65 + n else if n < 52 then 71 + n else if n < 62 then n - 4
      else if n = 62 then 43 else 47)"
    using assms by (rule of_char_b64_char)
  with assms show "b64_val (b64_char n) = Some n"
    by (auto simp: b64_val_nat Let_def)
  from n assms have "(of_char (b64_char n) :: nat) \<notin> {61, 13, 10}"
    by (auto split: if_splits)
  then show "b64_char n \<noteq> CHR ''=''" "b64_char n \<noteq> CHR 0x0D" "b64_char n \<noteq> CHR 0x0A"
    by auto
qed

lemma byte_parts:
  assumes "x < (256 :: nat)"
  shows "x div 4 < 64" "x mod 4 * 16 < 64" "x div 16 < 16" "x div 64 < 4" "x mod 4 < 4"
    "x mod 16 < 16" "x mod 16 * 4 < 64" "x mod 64 < 64"
    "y < 16 \<Longrightarrow> x mod 4 * 16 + y < 64" "y < 4 \<Longrightarrow> x mod 16 * 4 + y < 64"
  using assms by auto

lemma div_mod_recombine:
  "y < 16 \<Longrightarrow> x div 4 * 4 + (x mod 4 * 16 + y) div 16 = (x :: nat)"
  "z < 4 \<Longrightarrow> x div 16 * 16 + (x mod 16 * 4 + z) div 4 = x"
  "y < 16 \<Longrightarrow> (x mod 4 * 16 + y) mod 16 = y"
  "z < 4 \<Longrightarrow> (x mod 16 * 4 + z) mod 4 = z"
  "x div 64 * 64 + x mod 64 = x"
  by (simp_all add: mult.commute div_mult_mod_eq)

lemma b64_encode_clean: "filter (\<lambda>c. c \<noteq> CHR 0x0D \<and> c \<noteq> CHR 0x0A) (b64_encode s) = b64_encode s"
  by (induction s rule: b64_encode.induct) (simp_all add: Let_def b64_alphabet byte_parts)

lemma b64_quanta_encode: "b64_quanta (b64_encode s) = Some s"
proof (induction s rule: b64_encode.induct)
  case (2 a)
  have "of_char a div 4 * 4 + of_char a mod 4 * 16 div 16 = (of_char a :: nat)"
    using div_mod_recombine(1) [of 0 "of_char a"] by simp
  then show ?case by (simp add: Let_def b64_alphabet byte_parts)
next
  case (3 a b)
  have "of_char b div 16 * 16 + of_char b mod 16 * 4 div 4 = (of_char b :: nat)"
    using div_mod_recombine(2) [of 0 "of_char b"] by simp
  then show ?case by (simp add: Let_def b64_alphabet byte_parts div_mod_recombine)
qed (simp_all add: Let_def b64_alphabet byte_parts div_mod_recombine)

lemma b64_roundtrip: "b64_decode (b64_encode s) = Some s"
  by (simp add: b64_decode_def b64_encode_clean b64_quanta_encode)

lemma length_b64_encode: "length (b64_encode s) = 4 * ((length s + 2) div 3)"
proof (induction s rule: b64_encode.induct)
  case (4 a b c r)
  have "(5 + length r) div 3 = Suc ((length r + 2) div 3)" by presburger
  with 4 show ?case by (simp add: Let_def)
qed (simp_all add: Let_def)

end
