(* ===== verification/Json.thy ===== *)
theory Json
  imports Base64
begin

text \<open>
  JSON text as \<open>encoding/json\<close> writes and reads it: the part of the package that the
  wire protocol (\<open>internal/protocol\<close>), the API login and the credential file rest on.

  \<^item> A document is a \<open>json\<close> tree. A number keeps its literal, as the decoder does until
    it knows the type of the field.
  \<^item> \<open>json.Marshal\<close> writes no white space, escapes the three characters HTML would
    read as markup, and replaces bytes that are not UTF-8 by the replacement character.
  \<^item> The parser takes fuel; \<open>parse_json\<close> gives it one more than the length of the text, and
    \<open>parse_json_print\<close> shows that this is enough for everything the printer writes.
    The decoder's nesting limit of 10000 is not modelled: the program's own messages nest
    two levels deep.
\<close>

datatype json = JNull | JBool bool | JNum string | JStr string
  | JArr "json list" | JObj "(string \<times> json) list"

subsection \<open>UTF-8\<close>

definition cont_byte :: "char \<Rightarrow> bool" where
  "cont_byte c \<longleftrightarrow> (let n = of_char c :: nat in 128 \<le> n \<and> n \<le> 191)"

text \<open>
  The number of bytes of the multi-byte rune at the head of the text, 0 when there is none
  (\<open>utf8.DecodeRune\<close> then gives \<open>RuneError\<close> and consumes one byte).
\<close>

definition rune2 :: "char \<Rightarrow> char \<Rightarrow> bool" where
  "rune2 a b \<longleftrightarrow> (let x = of_char a :: nat in 194 \<le> x \<and> x \<le> 223 \<and> cont_byte b)"

definition rune3 :: "char \<Rightarrow> char \<Rightarrow> char \<Rightarrow> bool" where
  "rune3 a b c \<longleftrightarrow>
     (let x = of_char a :: nat; y = of_char b :: nat in
      cont_byte c \<and>
        (x = 224 \<and> 160 \<le> y \<and> y \<le> 191
         \<or> (225 \<le> x \<and> x \<le> 236 \<or> 238 \<le> x \<and> x \<le> 239) \<and> cont_byte b
         \<or> x = 237 \<and> 128 \<le> y \<and> y \<le> 159))"

definition rune4 :: "char \<Rightarrow> char \<Rightarrow> char \<Rightarrow> char \<Rightarrow> bool" where
  "rune4 a b c d \<longleftrightarrow>
     (let x = of_char a :: nat; y = of_char b :: nat in
      cont_byte c \<and> cont_byte d \<and>
        (x = 240 \<and> 144 \<le> y \<and> y \<le> 191
         \<or> 241 \<le> x \<and> x \<le> 243 \<and> cont_byte b
         \<or> x = 244 \<and> 128 \<le> y \<and> y \<le> 143))"

fun rune_len :: "string \<Rightarrow> nat" where
  "rune_len (a # b # r) =
     (if rune2 a b then 2
      else (case r of
          [] \<Rightarrow> 0
        | c # r' \<Rightarrow>
            (if rune3 a b c then 3
             else (case r' of [] \<Rightarrow> 0 | d # _ \<Rightarrow> if rune4 a b c d then 4 else 0))))"
| "rune_len _ = 0"

function valid_utf8 :: "string \<Rightarrow> bool" where
  "valid_utf8 [] = True"
| "valid_utf8 (c # s) =
     (if (of_char c :: nat) < 128 then valid_utf8 s
      else if rune_len (c # s) = 0 then False
      else valid_utf8 (drop (rune_len (c # s)) (c # s)))"
  by pat_completeness auto
termination
  by (relation "measure length") auto

text \<open>\<open>utf8.EncodeRune\<close>; \<open>utf8.RuneError\<close> is U+FFFD.\<close>

definition encode_rune :: "nat \<Rightarrow> string" where
  "encode_rune r =
     (if r < 128 then [char_of r]
      else if r < 2048 then [char_of (192 + r div 64), char_of (128 + r mod 64)]
      else if r < 65536 then
        [char_of (224 + r div 4096), char_of (128 + r div 64 mod 64), char_of (128 + r mod 64)]
      else
        [char_of (240 + r div 262144), char_of (128 + r div 4096 mod 64),
         char_of (128 + r div 64 mod 64), char_of (128 + r mod 64)])"

definition rune_error :: string where
  "rune_error = [CHR 0xEF, CHR 0xBF, CHR 0xBD]"

subsection \<open>Quoting\<close>

definition hex_digit :: "nat \<Rightarrow> char" where
  "hex_digit n = (if n < 10 then char_of (48 + n) else char_of (87 + n))"

definition unicode_escape :: "nat \<Rightarrow> string" where
  "unicode_escape n = [CHR 0x5C, CHR ''u'', hex_digit (n div 4096), hex_digit (n div 256 mod 16),
     hex_digit (n div 16 mod 16), hex_digit (n mod 16)]"

text \<open>One byte below 128, as \<open>appendString\<close> with HTML escaping writes it.\<close>

definition escape_ascii :: "char \<Rightarrow> string" where
  "escape_ascii c =
     (if c = CHR 0x22 \<or> c = CHR 0x5C then [CHR 0x5C, c]
      else if c = CHR 0x08 then [CHR 0x5C, CHR ''b'']
      else if c = CHR 0x0C then [CHR 0x5C, CHR ''f'']
      else if c = CHR 0x0A then [CHR 0x5C, CHR ''n'']
      else if c = CHR 0x0D then [CHR 0x5C, CHR ''r'']
      else if c = CHR 0x09 then [CHR 0x5C, CHR ''t'']
      else if (of_char c :: nat) < 32 \<or> c \<in> set ''<>&'' then unicode_escape (of_char c)
      else [c])"

function quote_body :: "string \<Rightarrow> string" where
  "quote_body [] = []"
| "quote_body (c # s) =
     (if (of_char c :: nat) < 128 then escape_ascii c @ quote_body s
      else (let n = rune_len (c # s) in
        if n = 0 then unicode_escape 65533 @ quote_body s
        else if take 3 (c # s) = [CHR 0xE2, CHR 0x80, CHR 0xA8]
          then unicode_escape 8232 @ quote_body (drop 3 (c # s))
        else if take 3 (c # s) = [CHR 0xE2, CHR 0x80, CHR 0xA9]
          then unicode_escape 8233 @ quote_body (drop 3 (c # s))
        else take n (c # s) @ quote_body (drop n (c # s))))"
  by pat_completeness auto
termination
  by (relation "measure length") auto

declare quote_body.simps(2) [simp del] valid_utf8.simps(2) [simp del]

definition quote :: "string \<Rightarrow> string" where
  "quote s = CHR 0x22 # quote_body s @ [CHR 0x22]"

subsection \<open>Unquoting\<close>

definition hex_val :: "char \<Rightarrow> nat option" where
  "hex_val c =
     (let n = of_char c :: nat in
      if 48 \<le> n \<and> n \<le> 57 then Some (n - 48)
      else if 97 \<le> n \<and> n \<le> 102 then Some (n - 87)
      else if 65 \<le> n \<and> n \<le> 70 then Some (n - 55)
      else None)"

definition hex4 :: "string \<Rightarrow> (nat \<times> string) option" where
  "hex4 s = (case s of
     a # b # c # d # r \<Rightarrow>
       (case (hex_val a, hex_val b, hex_val c, hex_val d) of
          (Some w, Some x, Some y, Some z) \<Rightarrow> Some (w * 4096 + x * 256 + y * 16 + z, r)
        | _ \<Rightarrow> None)
   | _ \<Rightarrow> None)"

lemma hex4_length: "hex4 s = Some (n, r) \<Longrightarrow> length s = length r + 4"
  by (auto simp: hex4_def split: list.splits option.splits)

text \<open>
  After the four digits of an escape: a surrogate pair is one rune, a lone surrogate
  is \<open>RuneError\<close>.
\<close>

definition surrogate :: "nat \<Rightarrow> string \<Rightarrow> string \<times> string" where
  "surrogate r s =
     (if r < 55296 \<or> 57344 \<le> r then (encode_rune r, s)
      else (case s of
          a # b # s' \<Rightarrow>
            (if a = CHR 0x5C \<and> b = CHR ''u'' then
               (case hex4 s' of
                  Some (r2, s'') \<Rightarrow>
                    (if r < 56320 \<and> 56320 \<le> r2 \<and> r2 < 57344
                     then (encode_rune ((r - 55296) * 1024 + (r2 - 56320) + 65536), s'')
                     else (rune_error, s))
                | None \<Rightarrow> (rune_error, s))
             else (rune_error, s))
        | _ \<Rightarrow> (rune_error, s)))"

lemma surrogate_length: "surrogate r s = (t, s') \<Longrightarrow> length s' \<le> length s"
  by (auto simp: surrogate_def dest!: hex4_length split: list.splits option.splits if_splits)

definition unescape :: "char \<Rightarrow> char option" where
  "unescape e =
     (if e = CHR 0x22 \<or> e = CHR 0x5C \<or> e = CHR ''/'' then Some e
      else if e = CHR ''b'' then Some (CHR 0x08)
      else if e = CHR ''f'' then Some (CHR 0x0C)
      else if e = CHR ''n'' then Some (CHR 0x0A)
      else if e = CHR ''r'' then Some (CHR 0x0D)
      else if e = CHR ''t'' then Some (CHR 0x09)
      else None)"

definition cons_text :: "string \<Rightarrow> (string \<times> string) option \<Rightarrow> (string \<times> string) option" where
  "cons_text t res = map_option (\<lambda>(u, r). (t @ u, r)) res"

text \<open>The contents of a string literal, after its opening quote; also the text behind it.\<close>

function parse_string :: "string \<Rightarrow> (string \<times> string) option" where
  "parse_string [] = None"
| "parse_string (c # s) =
     (if c = CHR 0x22 then Some ([], s)
      else if c = CHR 0x5C then
        (case s of
           [] \<Rightarrow> None
         | e # s' \<Rightarrow>
             (if e = CHR ''u'' then
                (case hex4 s' of
                   None \<Rightarrow> None
                 | Some (r, s'') \<Rightarrow>
                     cons_text (fst (surrogate r s'')) (parse_string (snd (surrogate r s''))))
              else (case unescape e of
                  None \<Rightarrow> None
                | Some d \<Rightarrow> cons_text [d] (parse_string s'))))
      else if (of_char c :: nat) < 32 then None
      else if (of_char c :: nat) < 128 then cons_text [c] (parse_string s)
      else if rune_len (c # s) = 0 then cons_text rune_error (parse_string s)
      else cons_text (take (rune_len (c # s)) (c # s))
             (parse_string (drop (rune_len (c # s)) (c # s))))"
  by pat_completeness auto
termination
proof (relation "measure length", goal_cases)
  case (2 c s e s' x r s'')
  then show ?case
    by (cases "surrogate r s''") (auto dest!: hex4_length surrogate_length)
qed auto

declare parse_string.simps(2) [simp del]

subsection \<open>Unquoting undoes quoting\<close>

lemma cons_text_Some [simp]: "cons_text t (Some (u, r)) = Some (t @ u, r)"
  by (simp add: cons_text_def)

lemma hex_val_digit: "n < 16 \<Longrightarrow> hex_val (hex_digit n) = Some n"
  by (simp add: hex_val_def hex_digit_def Let_def)

lemma base16_recombine:
  "b * 16 + r0 = (a :: nat) \<Longrightarrow> c * 16 + r1 = b \<Longrightarrow> d * 16 + r2 = c \<Longrightarrow>
   d * 4096 + r2 * 256 + r1 * 16 + r0 = a"
  by simp

lemma hex4_escape:
  "n < 65536 \<Longrightarrow> hex4 (hex_digit (n div 4096) # hex_digit (n div 256 mod 16)
     # hex_digit (n div 16 mod 16) # hex_digit (n mod 16) # r) = Some (n, r)"
proof -
  assume "n < 65536"
  then have "n div 4096 < 16" by (simp add: less_mult_imp_div_less)
  moreover have "n div 4096 * 4096 + n div 256 mod 16 * 256 + n div 16 mod 16 * 16 + n mod 16 = n"
  proof -
    have "n div 256 = n div 16 div 16" "n div 4096 = n div 16 div 16 div 16"
      by (simp_all flip: div_mult2_eq)
    then show ?thesis
      by (simp only:) (rule base16_recombine [OF div_mult_mod_eq div_mult_mod_eq div_mult_mod_eq])
  qed
  ultimately show ?thesis by (simp add: hex4_def hex_val_digit)
qed

lemma parse_unicode_escape:
  assumes "n < 55296 \<or> 57344 \<le> n" "n < 65536"
  shows "parse_string (unicode_escape n @ r) = cons_text (encode_rune n) (parse_string r)"
  using assms
  by (simp add: unicode_escape_def parse_string.simps(2) hex4_escape surrogate_def)

lemma encode_rune_ascii: "(of_char c :: nat) < 128 \<Longrightarrow> encode_rune (of_char c) = [c]"
  by (simp add: encode_rune_def)

lemma escape_ascii_cases:
  obtains d where "escape_ascii c = [CHR 0x5C, d]" "unescape d = Some c" "d \<noteq> CHR ''u''"
  | "escape_ascii c = unicode_escape (of_char c)"
  | "escape_ascii c = [c]" "c \<noteq> CHR 0x22" "c \<noteq> CHR 0x5C" "\<not> (of_char c :: nat) < 32"
proof (cases "c \<in> set [CHR 0x22, CHR 0x5C, CHR 0x08, CHR 0x0C, CHR 0x0A, CHR 0x0D, CHR 0x09]")
  case True
  then have "\<exists>d. escape_ascii c = [CHR 0x5C, d] \<and> unescape d = Some c \<and> d \<noteq> CHR ''u''"
    by (auto simp: escape_ascii_def unescape_def)
  then show thesis using that by blast
next
  case False
  then have "escape_ascii c =
      (if (of_char c :: nat) < 32 \<or> c \<in> set ''<>&'' then unicode_escape (of_char c) else [c])"
    and "c \<noteq> CHR 0x22" "c \<noteq> CHR 0x5C"
    by (simp_all add: escape_ascii_def)
  then show thesis using that by (metis (full_types))
qed

lemma parse_escape_ascii:
  assumes "(of_char c :: nat) < 128"
  shows "parse_string (escape_ascii c @ r) = cons_text [c] (parse_string r)"
proof (cases c rule: escape_ascii_cases)
  case (1 d)
  moreover from this have "CHR 0x5C # d # r = escape_ascii c @ r" by simp
  ultimately show ?thesis by (simp add: parse_string.simps(2))
next
  case 2
  then show ?thesis using assms by (simp add: parse_unicode_escape encode_rune_ascii)
next
  case 3
  then show ?thesis using assms by (simp add: parse_string.simps(2))
qed

lemma rune_len_append: "rune_len s > 0 \<Longrightarrow> rune_len (s @ t) = rune_len s"
  by (cases s rule: rune_len.cases) (auto split: list.splits if_splits)

lemma rune_len_length: "rune_len s \<le> length s"
  by (cases s rule: rune_len.cases) (auto split: list.splits)

lemma line_separators: "encode_rune 8232 = [CHR 0xE2, CHR 0x80, CHR 0xA8]"
    "encode_rune 8233 = [CHR 0xE2, CHR 0x80, CHR 0xA9]"
  unfolding encode_rune_def
  by (simp_all add: of_char_eqI [where 'a = nat, of "char_of (226 :: nat)" "CHR 0xE2"]
      of_char_eqI [where 'a = nat, of "char_of (128 :: nat)" "CHR 0x80"]
      of_char_eqI [where 'a = nat, of "char_of (168 :: nat)" "CHR 0xA8"]
      of_char_eqI [where 'a = nat, of "char_of (169 :: nat)" "CHR 0xA9"])

lemma rune_len_take: "rune_len (take (rune_len s) s) = rune_len s"
  by (cases s rule: rune_len.cases) (auto split: list.splits)

lemma rune_len_take_append: "rune_len s > 0 \<Longrightarrow> rune_len (take (rune_len s) s @ t) = rune_len s"
  by (metis rune_len_append rune_len_take)

lemma rune_len_separator:
  "take 3 s = [CHR 0xE2, CHR 0x80, CHR 0xA8] \<or> take 3 s = [CHR 0xE2, CHR 0x80, CHR 0xA9] \<Longrightarrow>
   rune_len s = 3"
proof -
  assume "take 3 s = [CHR 0xE2, CHR 0x80, CHR 0xA8] \<or> take 3 s = [CHR 0xE2, CHR 0x80, CHR 0xA9]"
  then obtain c where c: "c = CHR 0xA8 \<or> c = CHR 0xA9" and "take 3 s = [CHR 0xE2, CHR 0x80, c]"
    by blast
  then have "s = [CHR 0xE2, CHR 0x80, c] @ drop 3 s" by (metis append_take_drop_id)
  moreover have "rune_len ([CHR 0xE2, CHR 0x80, c] @ drop 3 s) = 3"
    using c by (auto simp: rune2_def rune3_def cont_byte_def Let_def)
  ultimately show ?thesis by simp
qed

lemma parse_string_rune:
  assumes "\<not> (of_char c :: nat) < 128" "rune_len (c # s) > 0"
  shows "parse_string (take (rune_len (c # s)) (c # s) @ r) =
    cons_text (take (rune_len (c # s)) (c # s)) (parse_string r)"
proof -
  let ?n = "rune_len (c # s)"
  let ?t = "take ?n (c # s)"
  obtain t where t: "?t = c # t" using assms(2) by (cases ?n) auto
  have len: "length ?t = ?n" using rune_len_length [of "c # s"] by simp
  have n: "rune_len (c # t @ r) = ?n"
    using rune_len_take_append [OF assms(2), of r] by (simp add: t)
  have "take ?n (c # t @ r) = ?t" "drop ?n (c # t @ r) = r"
    using len by (simp_all add: t flip: append_Cons)
  moreover have "c \<noteq> CHR 0x22" "c \<noteq> CHR 0x5C" using assms(1) by auto
  ultimately show ?thesis
    using assms n by (simp add: t parse_string.simps(2))
qed

definition line_separator :: "string \<Rightarrow> bool" where
  "line_separator s \<longleftrightarrow>
     take 3 s = [CHR 0xE2, CHR 0x80, CHR 0xA8] \<or> take 3 s = [CHR 0xE2, CHR 0x80, CHR 0xA9]"

lemma quote_rune:
  assumes "\<not> (of_char c :: nat) < 128" "rune_len (c # s) = n" "n > 0"
  shows "\<not> line_separator (c # s) \<Longrightarrow>
      quote_body (c # s) = take n (c # s) @ quote_body (drop n (c # s))"
    and "line_separator (c # s) \<Longrightarrow> \<exists>k. k < 65536 \<and> k < 55296 \<and> n = 3 \<and>
      encode_rune k = take n (c # s) \<and>
      quote_body (c # s) = unicode_escape k @ quote_body (drop n (c # s))"
proof -
  show "\<not> line_separator (c # s) \<Longrightarrow>
      quote_body (c # s) = take n (c # s) @ quote_body (drop n (c # s))"
    using assms by (simp only: quote_body.simps(2) line_separator_def Let_def if_False de_Morgan_disj) simp
  assume sep: "line_separator (c # s)"
  then have n: "n = 3" using rune_len_separator assms(2) by (simp only: line_separator_def)
  from sep consider "take 3 (c # s) = [CHR 0xE2, CHR 0x80, CHR 0xA8]"
    | "take 3 (c # s) = [CHR 0xE2, CHR 0x80, CHR 0xA9]" by (auto simp only: line_separator_def)
  then show "\<exists>k. k < 65536 \<and> k < 55296 \<and> n = 3 \<and>
      encode_rune k = take n (c # s) \<and>
      quote_body (c # s) = unicode_escape k @ quote_body (drop n (c # s))"
  proof cases
    case 1
    then show ?thesis using assms n
      by (intro exI [of _ 8232]) (simp only: quote_body.simps(2) line_separators Let_def if_False, simp)
  next
    case 2
    then show ?thesis using assms n
      by (intro exI [of _ 8233]) (simp only: quote_body.simps(2) line_separators Let_def if_False, simp)
  qed
qed

lemma parse_quote_body:
  "valid_utf8 s \<Longrightarrow> parse_string (quote_body s @ CHR 0x22 # r) = Some (s, r)"
proof (induction s rule: length_induct)
  case (1 s)
  show ?case
  proof (cases s)
    case Nil
    then show ?thesis by (simp add: parse_string.simps(2))
  next
    case (Cons c t)
    define n where "n = rune_len (c # t)"
    show ?thesis
    proof (cases "(of_char c :: nat) < 128")
      case True
      with 1 Cons show ?thesis
        by (simp add: quote_body.simps(2) valid_utf8.simps(2) parse_escape_ascii)
    next
      case False
      with "1.prems" Cons have n: "n > 0" and v: "valid_utf8 (drop n (c # t))"
        by (auto simp: valid_utf8.simps(2) n_def split: if_splits)
      have IH: "parse_string (quote_body (drop n (c # t)) @ CHR 0x22 # r) = Some (drop n (c # t), r)"
        using "1.IH" v n Cons by simp
      show ?thesis
      proof (cases "line_separator (c # t)")
        case True
        then obtain k where "k < 65536" "k < 55296" "encode_rune k = take n (c # t)"
          "quote_body (c # t) = unicode_escape k @ quote_body (drop n (c # t))"
          using quote_rune(2) [OF False n_def [symmetric] n] by blast
        then show ?thesis using IH Cons by (simp add: parse_unicode_escape)
      next
        case plain: False
        have "quote_body (c # t) = take n (c # t) @ quote_body (drop n (c # t))"
          by (rule quote_rune(1) [OF False n_def [symmetric] n plain])
        then show ?thesis
          using IH Cons parse_string_rune [OF False, of t] n
          by (simp only: append_assoc n_def [symmetric]) simp
      qed
    qed
  qed
qed

subsection \<open>Writing a document\<close>

fun print_json :: "json \<Rightarrow> string" where
  "print_json JNull = ''null''"
| "print_json (JBool b) = (if b then ''true'' else ''false'')"
| "print_json (JNum l) = l"
| "print_json (JStr s) = quote s"
| "print_json (JArr xs) = ''['' @ join (map print_json xs) '','' @ '']''"
| "print_json (JObj kvs) =
     ''{'' @ join (map (\<lambda>(k, v). quote k @ '':'' @ print_json v) kvs) '','' @ ''}''"

subsection \<open>Reading a document\<close>

definition skip_ws :: "string \<Rightarrow> string" where
  "skip_ws s = dropWhile (\<lambda>c. c \<in> set [CHR 0x20, CHR 0x09, CHR 0x0A, CHR 0x0D]) s"

text \<open>A number: sign, integer part, fraction, exponent.\<close>

definition scan_digits :: "string \<Rightarrow> (string \<times> string) option" where
  "scan_digits s =
     (let ds = takeWhile is_digit s in if ds = [] then None else Some (ds, dropWhile is_digit s))"

definition scan_int :: "string \<Rightarrow> (string \<times> string) option" where
  "scan_int s = (case s of
     c # r \<Rightarrow> if c = CHR ''0'' then Some ([c], r) else scan_digits s
   | [] \<Rightarrow> None)"

definition scan_frac :: "string \<Rightarrow> (string \<times> string) option" where
  "scan_frac s = (case s of
     c # r \<Rightarrow> if c = CHR ''.'' then map_option (\<lambda>(ds, r'). (c # ds, r')) (scan_digits r) else Some ([], s)
   | [] \<Rightarrow> Some ([], s))"

definition scan_sign :: "string \<Rightarrow> string \<times> string" where
  "scan_sign s = (case s of
     c # r \<Rightarrow> if c \<in> set ''+-'' then ([c], r) else ([], s)
   | [] \<Rightarrow> ([], s))"

definition scan_exp :: "string \<Rightarrow> (string \<times> string) option" where
  "scan_exp s = (case s of
     c # r \<Rightarrow>
       (if c \<in> set ''eE'' then
          map_option (\<lambda>(ds, r'). (c # fst (scan_sign r) @ ds, r')) (scan_digits (snd (scan_sign r)))
        else Some ([], s))
   | [] \<Rightarrow> Some ([], s))"

definition opt_minus :: "string \<Rightarrow> string \<times> string" where
  "opt_minus s = (case s of
     c # r \<Rightarrow> if c = CHR ''-'' then ([c], r) else ([], s)
   | [] \<Rightarrow> ([], s))"

definition scan_number :: "string \<Rightarrow> (string \<times> string) option" where
  "scan_number s = do {
     let (sg, s1) = opt_minus s;
     (ip, s2) \<leftarrow> scan_int s1;
     (fp, s3) \<leftarrow> scan_frac s2;
     (ep, s4) \<leftarrow> scan_exp s3;
     Some (sg @ ip @ fp @ ep, s4)
   }"

definition expect :: "char \<Rightarrow> string \<Rightarrow> string option" where
  "expect c s = (case skip_ws s of d # r \<Rightarrow> if d = c then Some r else None | [] \<Rightarrow> None)"

fun parse_value :: "nat \<Rightarrow> string \<Rightarrow> (json \<times> string) option"
  and parse_elems :: "nat \<Rightarrow> string \<Rightarrow> (json list \<times> string) option"
  and parse_members :: "nat \<Rightarrow> string \<Rightarrow> ((string \<times> json) list \<times> string) option" where
  "parse_value 0 s = None"
| "parse_value (Suc n) s =
     (case skip_ws s of
        [] \<Rightarrow> None
      | c # r \<Rightarrow>
          (if c = CHR ''{'' then
             (case skip_ws r of
                d # r' \<Rightarrow>
                  (if d = CHR ''}'' then Some (JObj [], r')
                   else map_option (\<lambda>(kvs, r''). (JObj kvs, r'')) (parse_members n r))
              | [] \<Rightarrow> None)
           else if c = CHR ''['' then
             (case skip_ws r of
                d # r' \<Rightarrow>
                  (if d = CHR '']'' then Some (JArr [], r')
                   else map_option (\<lambda>(xs, r''). (JArr xs, r'')) (parse_elems n r))
              | [] \<Rightarrow> None)
           else if c = CHR 0x22 then map_option (\<lambda>(t, r'). (JStr t, r')) (parse_string r)
           else if has_prefix (c # r) ''null'' then Some (JNull, drop 4 (c # r))
           else if has_prefix (c # r) ''true'' then Some (JBool True, drop 4 (c # r))
           else if has_prefix (c # r) ''false'' then Some (JBool False, drop 5 (c # r))
           else map_option (\<lambda>(l, r'). (JNum l, r')) (scan_number (c # r))))"
| "parse_elems 0 s = None"
| "parse_elems (Suc n) s = do {
     (v, r) \<leftarrow> parse_value n s;
     (case skip_ws r of
        [] \<Rightarrow> None
      | c # r' \<Rightarrow>
          (if c = CHR '','' then do { (vs, r'') \<leftarrow> parse_elems n r'; Some (v # vs, r'') }
           else if c = CHR '']'' then Some ([v], r')
           else None))
   }"
| "parse_members 0 s = None"
| "parse_members (Suc n) s = do {
     s1 \<leftarrow> expect (CHR 0x22) s;
     (k, s2) \<leftarrow> parse_string s1;
     s3 \<leftarrow> expect (CHR '':'') s2;
     (v, r) \<leftarrow> parse_value n s3;
     (case skip_ws r of
        [] \<Rightarrow> None
      | c # r' \<Rightarrow>
          (if c = CHR '','' then do { (kvs, r'') \<leftarrow> parse_members n r'; Some ((k, v) # kvs, r'') }
           else if c = CHR ''}'' then Some ([(k, v)], r')
           else None))
   }"

definition parse_json :: "string \<Rightarrow> json option" where
  "parse_json s =
     (case parse_value (Suc (length s)) s of
        Some (v, r) \<Rightarrow> if skip_ws r = [] then Some v else None
      | None \<Rightarrow> None)"

text \<open>\<open>json.NewDecoder(r).Decode\<close>: the first value of a stream; what follows it is left.\<close>

definition decode_first :: "string \<Rightarrow> json option" where
  "decode_first s = map_option fst (parse_value (Suc (length s)) s)"

declare parse_value.simps [simp del] parse_elems.simps [simp del] parse_members.simps [simp del]

text \<open>Documents the printer is used on: text in UTF-8, numbers in the literal syntax.\<close>

fun json_ok :: "json \<Rightarrow> bool" where
  "json_ok (JNum l) = (scan_number l = Some (l, []))"
| "json_ok (JStr s) = valid_utf8 s"
| "json_ok (JArr xs) = list_all json_ok xs"
| "json_ok (JObj kvs) = list_all (\<lambda>(k, v). valid_utf8 k \<and> json_ok v) kvs"
| "json_ok _ = True"

subsection \<open>Reading undoes writing\<close>

text \<open>What may follow a value inside a document.\<close>

definition delim :: "string \<Rightarrow> bool" where
  "delim r \<longleftrightarrow> r = [] \<or> hd r \<in> set (CHR 0x0A # '',]}'')"

lemma delim_simps [simp]: "delim []" "delim [CHR 0x0A]" "delim (CHR '','' # r)" "delim (CHR '']'' # r)" "delim (CHR ''}'' # r)"
  by (simp_all add: delim_def)

lemma delim_hd:
  assumes "delim (c # r)"
  shows "\<not> is_digit c" "c \<noteq> CHR ''.''" "c \<notin> set ''eE''"
  using assms by (auto simp: delim_def is_digit_def)

lemma scan_digits_append:
  assumes "scan_digits s = Some (ds, r)" "r = [] \<Longrightarrow> delim t"
  shows "scan_digits (s @ t) = Some (ds, r @ t)"
proof (cases r)
  case Nil
  then have "\<forall>c \<in> set s. is_digit c" and "ds = s"
    using assms(1) by (auto simp: scan_digits_def Let_def takeWhile_eq_all_conv split: if_splits)
  moreover have "takeWhile is_digit t = []" "dropWhile is_digit t = t"
    using assms(2) Nil delim_hd by (cases t; simp)+
  ultimately show ?thesis using assms(1) Nil by (auto simp: scan_digits_def Let_def split: if_splits)
next
  case (Cons c r')
  then have d: "dropWhile is_digit s = c # r'"
    using assms(1) by (auto simp: scan_digits_def Let_def split: if_splits)
  then have "\<not> is_digit c" by (metis hd_dropWhile list.distinct(1) list.sel(1))
  moreover have "c \<in> set s" using d by (metis list.set_intros(1) set_dropWhileD)
  ultimately have "\<exists>x \<in> set s. \<not> is_digit x" by blast
  then show ?thesis using assms(1) by (auto simp: scan_digits_def Let_def split: if_splits)
qed

lemma scan_int_append:
  "scan_int s = Some (ds, r) \<Longrightarrow> (r = [] \<Longrightarrow> delim t) \<Longrightarrow> scan_int (s @ t) = Some (ds, r @ t)"
  using scan_digits_append [of s ds r t]
  by (cases s) (auto simp: scan_int_def split: if_splits)

lemma scan_frac_append:
  "scan_frac s = Some (ds, r) \<Longrightarrow> (r = [] \<Longrightarrow> delim t) \<Longrightarrow> scan_frac (s @ t) = Some (ds, r @ t)"
  using scan_digits_append delim_hd
  by (cases s; cases t) (fastforce simp: scan_frac_def split: if_splits)+

lemma scan_exp_append:
  assumes "scan_exp s = Some (ds, r)" "r = [] \<Longrightarrow> delim t"
  shows "scan_exp (s @ t) = Some (ds, r @ t)"
proof (cases s)
  case Nil
  then show ?thesis using assms delim_hd by (cases t) (auto simp: scan_exp_def)
next
  case (Cons c s')
  show ?thesis
  proof (cases "c \<in> set ''eE''")
    case True
    then obtain ds' where d: "scan_digits (snd (scan_sign s')) = Some (ds', r)"
      "ds = c # fst (scan_sign s') @ ds'"
      using assms(1) Cons by (auto simp: scan_exp_def)
    then have "s' \<noteq> []" by (auto simp: scan_sign_def scan_digits_def)
    then have "scan_sign (s' @ t) = (fst (scan_sign s'), snd (scan_sign s') @ t)"
      by (cases s') (auto simp: scan_sign_def)
    then show ?thesis
      using d True Cons scan_digits_append [OF d(1) assms(2)] by (auto simp: scan_exp_def)
  next
    case False
    then show ?thesis using assms(1) Cons by (auto simp: scan_exp_def)
  qed
qed

lemma opt_minus_append: "s \<noteq> [] \<Longrightarrow> opt_minus (s @ t) = (fst (opt_minus s), snd (opt_minus s) @ t)"
  by (cases s) (auto simp: opt_minus_def)

lemma scan_number_append:
  assumes "scan_number l = Some (u, r)" "r = [] \<Longrightarrow> delim t"
  shows "scan_number (l @ t) = Some (u, r @ t)"
proof -
  obtain ip s2 fp s3 ep where s2: "scan_int (snd (opt_minus l)) = Some (ip, s2)"
    and s3: "scan_frac s2 = Some (fp, s3)" and s4: "scan_exp s3 = Some (ep, r)"
    and u: "u = fst (opt_minus l) @ ip @ fp @ ep"
    using assms(1) by (auto simp: scan_number_def split: Option.bind_splits prod.splits)
  have r3: "s3 = [] \<Longrightarrow> delim t" using s4 assms(2) by (auto simp: scan_exp_def)
  have r2: "s2 = [] \<Longrightarrow> delim t" using s3 r3 by (auto simp: scan_frac_def)
  have "l \<noteq> []" using s2 by (auto simp: scan_int_def opt_minus_def)
  then show ?thesis
    using scan_int_append [OF s2 r2] scan_frac_append [OF s3 r3] scan_exp_append [OF s4 assms(2)] u
    by (simp add: scan_number_def opt_minus_append)
qed

lemma scan_number_hd:
  assumes "scan_number l = Some (u, r)"
  shows "l \<noteq> []" "hd l = CHR ''-'' \<or> is_digit (hd l)"
proof -
  show "l \<noteq> []"
    using assms by (auto simp: scan_number_def opt_minus_def scan_int_def)
  moreover have "is_digit CHR ''0''" by (simp add: is_digit_def)
  ultimately show "hd l = CHR ''-'' \<or> is_digit (hd l)"
    using assms by (cases l)
     (auto simp: scan_number_def opt_minus_def scan_int_def scan_digits_def Let_def
       split: if_splits Option.bind_splits)
qed

lemma hd_utoa_zero: "hd (utoa n) = CHR ''0'' \<Longrightarrow> n = 0"
proof (induction n rule: utoa.induct)
  case (1 n)
  show ?case
  proof (cases "n < 10")
    case True
    then have "digit n = CHR ''0''" using 1 by (simp add: utoa.simps [of n])
    then have "n = digit_val CHR ''0''" using True by (metis digit_val_digit)
    then show ?thesis by (simp add: digit_val_def)
  next
    case False
    with 1 show ?thesis by (simp add: utoa.simps [of n])
  qed
qed

lemma scan_int_utoa: "scan_int (utoa n) = Some (utoa n, [])"
proof -
  obtain c r where u: "utoa n = c # r" by (meson neq_Nil_conv utoa_not_Nil)
  show ?thesis
  proof (cases "c = CHR ''0''")
    case True
    then have "n = 0" using hd_utoa_zero [of n] u by simp
    moreover have "digit 0 = CHR ''0''"
      by (rule of_char_eqI [where 'a = nat]) (simp add: digit_def)
    ultimately show ?thesis by (simp add: utoa.simps [of 0] scan_int_def)
  next
    case False
    have "takeWhile is_digit (utoa n) = utoa n" "dropWhile is_digit (utoa n) = []"
      using utoa_digits [of n] by (auto simp: list.pred_set takeWhile_eq_all_conv)
    then show ?thesis using u False by (simp add: scan_int_def scan_digits_def)
  qed
qed

lemma scan_number_itoa [simp]: "scan_number (itoa i) = Some (itoa i, [])"
proof -
  have "utoa n \<noteq> [] \<and> hd (utoa n) \<noteq> CHR ''-''" for n
    using hd_utoa [of n] is_digit_sign by auto
  then have "opt_minus (utoa n) = ([], utoa n)" for n
    by (cases "utoa n") (auto simp: opt_minus_def, metis list.sel(1))
  then show ?thesis
    by (simp add: scan_number_def itoa_def scan_int_utoa scan_frac_def scan_exp_def)
      (simp add: opt_minus_def scan_int_utoa)
qed

lemma skip_ws_id [simp]: "c \<notin> set [CHR 0x20, CHR 0x09, CHR 0x0A, CHR 0x0D] \<Longrightarrow> skip_ws (c # s) = c # s"
  by (auto simp: skip_ws_def)

lemma skip_ws_Nil [simp]: "skip_ws [] = []"
  by (simp add: skip_ws_def)

lemma number_head:
  "c = CHR ''-'' \<or> is_digit c \<Longrightarrow> c \<notin> set [CHR 0x20, CHR 0x09, CHR 0x0A, CHR 0x0D] \<and> c \<notin> set '',:]}''"
  by (auto simp: is_digit_def)

lemma print_json_hd:
  assumes "json_ok j"
  obtains c s where "print_json j = c # s"
    "c \<notin> set [CHR 0x20, CHR 0x09, CHR 0x0A, CHR 0x0D]" "c \<notin> set '',:]}''"
proof -
  have "print_json j \<noteq> [] \<and> hd (print_json j) \<notin> set [CHR 0x20, CHR 0x09, CHR 0x0A, CHR 0x0D]
      \<and> hd (print_json j) \<notin> set '',:]}''"
  proof (cases j)
    case (JNum l)
    with assms have "l \<noteq> []" "hd l = CHR ''-'' \<or> is_digit (hd l)"
      using scan_number_hd by auto
    then show ?thesis using number_head [of "hd l"] JNum by simp
  qed (simp_all add: quote_def)
  then show thesis using that by (metis list.collapse)
qed

lemma parse_number_value:
  assumes "scan_number l = Some (l, [])" "delim r"
  shows "parse_value (Suc n) (l @ r) = Some (JNum l, r)"
proof -
  obtain c s where l: "l = c # s" and c: "c = CHR ''-'' \<or> is_digit c"
    using scan_number_hd [OF assms(1)] by (cases l) auto
  have "scan_number (l @ r) = Some (l, r)" using scan_number_append [OF assms(1)] assms(2) by simp
  moreover have "c \<notin> set [CHR 0x20, CHR 0x09, CHR 0x0A, CHR 0x0D]" "c \<noteq> CHR ''{''" "c \<noteq> CHR ''[''"
      "c \<noteq> CHR 0x22" "c \<noteq> CHR ''n''" "c \<noteq> CHR ''t''" "c \<noteq> CHR ''f''"
    using c by (auto simp: is_digit_def)
  ultimately show ?thesis by (simp add: l parse_value.simps has_prefix_def)
qed

definition reads_back :: "json \<Rightarrow> bool" where
  "reads_back j \<longleftrightarrow>
     (\<forall>n r. length (print_json j) < n \<longrightarrow> delim r \<longrightarrow> parse_value n (print_json j @ r) = Some (j, r))"

lemma parse_elems_print:
  assumes "xs \<noteq> []" "\<And>x. x \<in> set xs \<Longrightarrow> reads_back x"
    "length (join (map print_json xs) '','') + 1 < n"
  shows "parse_elems n (join (map print_json xs) '','' @ '']'' @ r) = Some (xs, r)"
  using assms
proof (induction xs arbitrary: n)
  case (Cons x xs)
  obtain m where n: "n = Suc m" using Cons.prems(3) by (cases n) auto
  have x: "reads_back x" using Cons.prems by simp
  show ?case
  proof (cases xs)
    case Nil
    then have "parse_value m (print_json x @ '']'' @ r) = Some (x, '']'' @ r)"
      using x Cons.prems(3) n by (simp add: reads_back_def)
    then show ?thesis by (simp add: n Nil parse_elems.simps)
  next
    case (Cons y ys)
    let ?t = "join (map print_json xs) '','' @ '']'' @ r"
    have "parse_value m (print_json x @ '','' @ ?t) = Some (x, '','' @ ?t)"
      using x Cons.prems(3) n Cons by (simp add: reads_back_def)
    moreover have "parse_elems m ?t = Some (xs, r)"
      using Cons.IH [of m] Cons.prems n Cons by simp
    ultimately show ?thesis by (simp add: n Cons parse_elems.simps)
  qed
qed simp

lemma expect_hit [simp]: "c \<notin> set [CHR 0x20, CHR 0x09, CHR 0x0A, CHR 0x0D] \<Longrightarrow> expect c (c # s) = Some s"
  by (simp add: expect_def)

abbreviation print_member :: "string \<times> json \<Rightarrow> string" where
  "print_member \<equiv> (\<lambda>(k, v). quote k @ '':'' @ print_json v)"

lemma parse_members_print:
  assumes "kvs \<noteq> []" "\<And>k v. (k, v) \<in> set kvs \<Longrightarrow> valid_utf8 k \<and> reads_back v"
    "length (join (map print_member kvs) '','') + 1 < n"
  shows "parse_members n (join (map print_member kvs) '','' @ ''}'' @ r) = Some (kvs, r)"
  using assms
proof (induction kvs arbitrary: n)
  case (Cons kv kvs)
  obtain k v where kv: "kv = (k, v)" by fastforce
  obtain m where n: "n = Suc m" using Cons.prems(3) by (cases n) auto
  have v: "reads_back v" "valid_utf8 k" using Cons.prems kv by auto
  note s = quote_def parse_quote_body [OF v(2)]
  show ?case
  proof (cases kvs)
    case Nil
    then have "parse_value m (print_json v @ ''}'' @ r) = Some (v, ''}'' @ r)"
      using v Cons.prems(3) n kv by (simp add: reads_back_def)
    then show ?thesis by (simp add: n kv Nil s parse_members.simps)
  next
    case (Cons y ys)
    let ?t = "join (map print_member kvs) '','' @ ''}'' @ r"
    have "parse_value m (print_json v @ '','' @ ?t) = Some (v, '','' @ ?t)"
      using v Cons.prems(3) n Cons kv by (simp add: reads_back_def)
    moreover have "parse_members m ?t = Some (kvs, r)"
    proof (rule Cons.IH)
      show "\<And>k v. (k, v) \<in> set kvs \<Longrightarrow> valid_utf8 k \<and> reads_back v"
        by (rule Cons.prems(2)) simp
    qed (use Cons.prems(3) n Cons kv in simp_all)
    ultimately show ?thesis by (simp add: n kv Cons s parse_members.simps)
  qed
qed simp
lemma reads_backI:
  "(\<And>m r. length (print_json j) \<le> m \<Longrightarrow> delim r \<Longrightarrow> parse_value (Suc m) (print_json j @ r) = Some (j, r))
   \<Longrightarrow> reads_back j"
  unfolding reads_back_def by (metis Suc_leI Suc_le_D Suc_le_mono)

lemma reads_back_atoms: "reads_back JNull" "reads_back (JBool b)"
  by (rule reads_backI; simp add: parse_value.simps has_prefix_def)+

lemma reads_back_str: "valid_utf8 s \<Longrightarrow> reads_back (JStr s)"
  by (rule reads_backI) (simp add: quote_def parse_value.simps parse_quote_body)

lemma reads_back_num: "scan_number l = Some (l, []) \<Longrightarrow> reads_back (JNum l)"
  by (rule reads_backI) (simp add: parse_number_value)

lemma reads_back_arr:
  assumes "\<And>x. x \<in> set xs \<Longrightarrow> json_ok x \<and> reads_back x"
  shows "reads_back (JArr xs)"
proof (rule reads_backI)
  fix m r assume n: "length (print_json (JArr xs)) \<le> m" and "delim r"
  show "parse_value (Suc m) (print_json (JArr xs) @ r) = Some (JArr xs, r)"
  proof (cases xs)
    case Nil
    then show ?thesis by (simp add: parse_value.simps)
  next
    case (Cons x ys)
    have e: "parse_elems m (join (map print_json xs) '','' @ '']'' @ r) = Some (xs, r)"
      using assms n Cons by (intro parse_elems_print) auto
    obtain c s where c: "print_json x = c # s"
      "c \<notin> set [CHR 0x20, CHR 0x09, CHR 0x0A, CHR 0x0D]" "c \<notin> set '',:]}''"
      using print_json_hd [of x] assms Cons by auto
    then obtain t where "join (map print_json xs) '','' @ '']'' @ r = c # t"
      using Cons by (cases ys) auto
    then show ?thesis using e c by (simp add: parse_value.simps)
  qed
qed

lemma reads_back_obj:
  assumes "\<And>k v. (k, v) \<in> set kvs \<Longrightarrow> valid_utf8 k \<and> reads_back v"
  shows "reads_back (JObj kvs)"
proof (rule reads_backI)
  fix m r assume n: "length (print_json (JObj kvs)) \<le> m" and "delim r"
  show "parse_value (Suc m) (print_json (JObj kvs) @ r) = Some (JObj kvs, r)"
  proof (cases kvs)
    case Nil
    then show ?thesis by (simp add: parse_value.simps)
  next
    case (Cons kv ys)
    have e: "parse_members m (join (map print_member kvs) '','' @ ''}'' @ r) = Some (kvs, r)"
      by (rule parse_members_print [OF _ assms]) (use n Cons in simp_all)
    obtain t where "join (map print_member kvs) '','' @ ''}'' @ r = CHR 0x22 # t"
      using Cons by (cases ys; cases kv) (auto simp: quote_def)
    then show ?thesis using e by (simp add: parse_value.simps)
  qed
qed

lemma json_ok_reads_back: "json_ok j \<Longrightarrow> reads_back j"
proof (induction j rule: json_ok.induct)
  case (3 xs)
  then show ?case by (intro reads_back_arr) (auto simp: list_all_iff)
next
  case (4 kvs)
  show ?case
  proof (rule reads_back_obj)
    show "valid_utf8 k \<and> reads_back v" if "(k, v) \<in> set kvs" for k v
      using 4(1) [OF that refl] 4(2) that by (auto simp: list_all_iff)
  qed
qed (simp_all add: reads_back_atoms reads_back_str reads_back_num)

lemma decode_first_print: "json_ok j \<Longrightarrow> delim r \<Longrightarrow> decode_first (print_json j @ r) = Some j"
  using json_ok_reads_back [of j] by (auto simp: reads_back_def decode_first_def)

theorem parse_json_print: "json_ok j \<Longrightarrow> parse_json (print_json j) = Some j"
  using json_ok_reads_back [of j]
  by (auto simp: reads_back_def parse_json_def dest!: spec [of _ "[]"])


subsection \<open>What the printer writes is UTF-8\<close>

lemma valid_utf8_append: "valid_utf8 s \<Longrightarrow> valid_utf8 t \<Longrightarrow> valid_utf8 (s @ t)"
proof (induction s rule: valid_utf8.induct)
  case (2 c s)
  show ?case
  proof (cases "(of_char c :: nat) < 128")
    case True
    with 2 show ?thesis by (simp add: valid_utf8.simps(2))
  next
    case False
    let ?n = "rune_len (c # s)"
    from False "2.prems" have n: "?n > 0" and "valid_utf8 (drop ?n (c # s))"
      by (auto simp: valid_utf8.simps(2) split: if_splits)
    then have "valid_utf8 (drop ?n (c # s) @ t)" using False 2 by auto
    moreover have "rune_len (c # s @ t) = ?n" using rune_len_append [OF n, of t] by simp
    moreover have "drop ?n (c # s) @ t = drop ?n (c # s @ t)"
      using rune_len_length [of "c # s"] by (simp flip: append_Cons)
    ultimately show ?thesis using False n by (simp add: valid_utf8.simps(2))
  qed
qed simp

definition ascii :: "string \<Rightarrow> bool" where
  "ascii s \<longleftrightarrow> list_all (\<lambda>c. (of_char c :: nat) < 128) s"

lemma ascii_simps [simp]: "ascii []" "ascii (c # s) \<longleftrightarrow> (of_char c :: nat) < 128 \<and> ascii s"
    "ascii (s @ t) \<longleftrightarrow> ascii s \<and> ascii t"
  by (simp_all add: ascii_def)

lemma ascii_valid_utf8: "ascii s \<Longrightarrow> valid_utf8 s"
  by (induction s) (simp_all add: valid_utf8.simps(2))

lemma ascii_hex_digit: "n < 16 \<Longrightarrow> (of_char (hex_digit n) :: nat) < 128"
  by (simp add: hex_digit_def)

lemma ascii_unicode_escape: "n < 65536 \<Longrightarrow> ascii (unicode_escape n)"
  by (simp add: unicode_escape_def ascii_hex_digit less_mult_imp_div_less)

lemma ascii_escape: "(of_char c :: nat) < 128 \<Longrightarrow> ascii (escape_ascii c)"
  by (simp add: escape_ascii_def ascii_unicode_escape)

lemma valid_utf8_rune:
  assumes "\<not> (of_char c :: nat) < 128" "rune_len (c # s) > 0"
  shows "valid_utf8 (take (rune_len (c # s)) (c # s))"
proof -
  obtain t where t: "take (rune_len (c # s)) (c # s) = c # t" using assms(2) by (cases "rune_len (c # s)") auto
  moreover have "rune_len (c # t) = rune_len (c # s)" using rune_len_take [of "c # s"] t by simp
  moreover have "length (c # t) = rune_len (c # s)" using rune_len_length [of "c # s"] t by (metis length_take min.absorb2)
  ultimately show ?thesis using assms by (simp add: valid_utf8.simps(2))
qed

lemma valid_utf8_quote_body: "valid_utf8 (quote_body s)"
proof (induction s rule: length_induct)
  case (1 s)
  show ?case
  proof (cases s)
    case (Cons c t)
    have IH: "valid_utf8 (quote_body (drop n t))" for n using 1 Cons by simp
    show ?thesis
    proof (cases "(of_char c :: nat) < 128")
      case True
      then show ?thesis using IH [of 0] Cons
        by (simp add: quote_body.simps(2) valid_utf8_append ascii_valid_utf8 ascii_escape)
    next
      case False
      show ?thesis
      proof (cases "rune_len (c # t) = 0")
        case True
        then show ?thesis using False IH [of 0] Cons
          by (simp add: quote_body.simps(2) valid_utf8_append ascii_valid_utf8 ascii_unicode_escape)
      next
        case n: False
        then obtain m where m: "rune_len (c # t) = Suc m" by (cases "rune_len (c # t)") auto
        then have d: "drop (rune_len (c # t)) (c # t) = drop m t" by simp
        show ?thesis
        proof (cases "line_separator (c # t)")
          case True
          then obtain k where "k < 65536" "quote_body (c # t) = unicode_escape k @ quote_body (drop m t)"
            using quote_rune(2) [OF False refl _ True] n d by auto
          then show ?thesis
            using IH Cons by (simp add: valid_utf8_append ascii_valid_utf8 ascii_unicode_escape)
        next
          case plain: False
          have "quote_body (c # t) = take (rune_len (c # t)) (c # t) @ quote_body (drop m t)"
            using quote_rune(1) [OF False refl _ plain] n d by simp
          then show ?thesis
            using IH Cons valid_utf8_rune [OF False] n by (simp add: valid_utf8_append)
        qed
      qed
    qed
  qed simp
qed

lemma valid_utf8_quote: "valid_utf8 (quote s)"
  unfolding quote_def
  using valid_utf8_append [OF valid_utf8_quote_body [of s] ascii_valid_utf8 [of "[CHR 0x22]"]]
  by (simp add: valid_utf8.simps(2))

lemma valid_utf8_join:
  "(\<And>w. w \<in> set ws \<Longrightarrow> valid_utf8 w) \<Longrightarrow> ascii sep \<Longrightarrow> valid_utf8 (join ws sep)"
  by (induction ws sep rule: join.induct) (simp_all add: valid_utf8_append ascii_valid_utf8)

lemma ascii_digits: "list_all is_digit s \<Longrightarrow> ascii s"
  by (induction s) (simp_all add: is_digit_def less_eq_char_def)

lemma ascii_itoa: "ascii (itoa i)"
  by (simp add: itoa_def ascii_digits utoa_digits)

lemma ascii_scan_digits: "scan_digits s = Some (ds, r) \<Longrightarrow> ascii ds"
  by (auto simp: scan_digits_def Let_def list_all_iff intro!: ascii_digits dest: set_takeWhileD
      split: if_splits)

lemma ascii_scan_number:
  assumes "scan_number s = Some (l, r)"
  shows "ascii l"
proof -
  have int: "scan_int s = Some (ds, r) \<Longrightarrow> ascii ds" for s ds r
    by (cases s) (auto simp: scan_int_def dest: ascii_scan_digits split: if_splits)
  have frac: "scan_frac s = Some (ds, r) \<Longrightarrow> ascii ds" for s ds r
    by (cases s) (auto simp: scan_frac_def dest: ascii_scan_digits split: if_splits)
  have sign: "ascii (fst (scan_sign s))" "ascii (fst (opt_minus s))" for s
    by (cases s; simp add: scan_sign_def opt_minus_def)+
  have exp: "scan_exp s = Some (ds, r) \<Longrightarrow> ascii ds" for s ds r
    using sign by (cases s) (auto simp: scan_exp_def dest: ascii_scan_digits split: if_splits)
  obtain ip s2 fp s3 ep where "scan_int (snd (opt_minus s)) = Some (ip, s2)"
    and "scan_frac s2 = Some (fp, s3)" and "scan_exp s3 = Some (ep, r)"
    and "l = fst (opt_minus s) @ ip @ fp @ ep"
    using assms by (auto simp: scan_number_def split: Option.bind_splits prod.splits)
  then show ?thesis using sign int frac exp by simp
qed

lemma valid_utf8_print: "json_ok j \<Longrightarrow> valid_utf8 (print_json j)"
proof (induction j rule: json_ok.induct)
  case (1 l)
  then show ?case by (auto intro: ascii_valid_utf8 ascii_scan_number)
next
  case (3 xs)
  then have "valid_utf8 (join (map print_json xs) '','')"
    by (intro valid_utf8_join) (auto simp: list_all_iff)
  then show ?case
    by (simp add: valid_utf8.simps(2) valid_utf8_append ascii_valid_utf8)
next
  case (4 kvs)
  have "valid_utf8 (join (map print_member kvs) '','')"
  proof (rule valid_utf8_join)
    fix w assume "w \<in> set (map print_member kvs)"
    then obtain k v where kv: "(k, v) \<in> set kvs" and w: "w = quote k @ '':'' @ print_json v" by auto
    then have "valid_utf8 (print_json v)" using 4(1) [OF kv refl] 4(2) by (auto simp: list_all_iff)
    then have "valid_utf8 ('':'' @ print_json v)" by (simp add: valid_utf8.simps(2))
    then show "valid_utf8 w" unfolding w by (rule valid_utf8_append [OF valid_utf8_quote])
  qed simp
  then show ?case
    by (simp add: valid_utf8.simps(2) valid_utf8_append ascii_valid_utf8)
qed (simp_all add: valid_utf8_quote ascii_valid_utf8)

end
