(* ===== verification/Protocol.thy ===== *)
theory Protocol
  imports Json
begin

text \<open>
  The wire protocol (\<open>internal/protocol/command.go\<close>, \<open>dto.go\<close>). One WebSocket
  message is one \<open>Command\<close>; its \<open>Data\<close> is the JSON text of a payload. Encoding
  follows the struct tags; decoding follows \<open>json.Unmarshal\<close>: keys match a field without
  regard to case, unknown keys are skipped, \<open>null\<close> leaves a string or a number alone and
  clears a map or a byte slice, and a value of the wrong type is an error. A nil map and an empty
  one are the same finite map here; the program marshals no nil map.
\<close>

subsection \<open>The messages\<close>

type_synonym CommandType = int

definition CmdEcho :: CommandType where "CmdEcho = 1"
definition CmdHttpRequest :: CommandType where "CmdHttpRequest = 2"
definition CmdHttpResponse :: CommandType where "CmdHttpResponse = 3"
definition CmdNtunlInfo :: CommandType where "CmdNtunlInfo = 4"

lemmas cmd_type_defs = CmdEcho_def CmdHttpRequest_def CmdHttpResponse_def CmdNtunlInfo_def

record Command =
  cmdType :: CommandType
  cmdConv :: string
  cmdData :: string

record HttpRequestData =
  rqHeaders :: headers
  rqMethod :: string
  rqPath :: string
  rqContent :: string
  rqContentHeaders :: headers

record HttpResponseData =
  rsStatusCode :: int
  rsContent :: string
  rsContentHeaders :: headers
  rsHeaders :: headers

record NtunlInfo =
  niUrl :: string

definition zero_request :: HttpRequestData where
  "zero_request = \<lparr>rqHeaders = fmempty, rqMethod = [], rqPath = [], rqContent = [], rqContentHeaders = fmempty\<rparr>"

definition zero_response :: HttpResponseData where
  "zero_response = \<lparr>rsStatusCode = 0, rsContent = [], rsContentHeaders = fmempty, rsHeaders = fmempty\<rparr>"

subsection \<open>Encoding: the struct tags\<close>

text \<open>A map is written with its keys in byte order.\<close>

definition json_of_map :: "headers \<Rightarrow> json" where
  "json_of_map m = JObj (map (\<lambda>(k, v). (k, JStr v)) (sorted_list_of_fmap m))"

text \<open>A byte slice with \<open>omitempty\<close>.\<close>

definition json_content :: "string \<Rightarrow> (string \<times> json) list" where
  "json_content b = (if b = [] then [] else [(''content'', JStr (b64_encode b))])"

definition command_json :: "Command \<Rightarrow> json" where
  "command_json c = JObj
     [(''commandType'', JNum (itoa (cmdType c))),
      (''conversationId'', JStr (cmdConv c)),
      (''data'', JStr (cmdData c))]"

definition request_json :: "HttpRequestData \<Rightarrow> json" where
  "request_json r = JObj
     ([(''headers'', json_of_map (rqHeaders r)),
       (''method'', JStr (rqMethod r)),
       (''path'', JStr (rqPath r))]
      @ json_content (rqContent r)
      @ [(''contentHeaders'', json_of_map (rqContentHeaders r))])"

definition response_json :: "HttpResponseData \<Rightarrow> json" where
  "response_json r = JObj
     ([(''statusCode'', JNum (itoa (rsStatusCode r)))]
      @ json_content (rsContent r)
      @ [(''contentHeaders'', json_of_map (rsContentHeaders r)),
         (''headers'', json_of_map (rsHeaders r))])"

definition info_json :: "NtunlInfo \<Rightarrow> json" where
  "info_json i = JObj [(''url'', JStr (niUrl i))]"

text \<open>\<open>json.Marshal\<close> cannot fail on these types: the error result is always nil.\<close>

definition Marshal :: "Command \<Rightarrow> string" where
  "Marshal c = print_json (command_json c)"

definition marshal_request :: "HttpRequestData \<Rightarrow> string" where
  "marshal_request r = print_json (request_json r)"

definition marshal_response :: "HttpResponseData \<Rightarrow> string" where
  "marshal_response r = print_json (response_json r)"

definition marshal_info :: "NtunlInfo \<Rightarrow> string" where
  "marshal_info i = print_json (info_json i)"

subsection \<open>Decoding\<close>

text \<open>
  \<open>foldName\<close>: a key matches a field when the two fold to the same text. Beside the ASCII
  letters, U+017F folds to S and U+212A to K.
\<close>

fun fold_name :: "string \<Rightarrow> string" where
  "fold_name (a # b # c # s) =
     (if a = CHR 0xE2 \<and> b = CHR 0x84 \<and> c = CHR 0xAA then CHR ''K'' # fold_name s
      else if a = CHR 0xC5 \<and> b = CHR 0xBF then CHR ''S'' # fold_name (c # s)
      else upper_byte a # fold_name (b # c # s))"
| "fold_name [a, b] = (if a = CHR 0xC5 \<and> b = CHR 0xBF then ''S'' else [upper_byte a, upper_byte b])"
| "fold_name [a] = [upper_byte a]"
| "fold_name [] = []"

definition same_field :: "string \<Rightarrow> string \<Rightarrow> bool" where
  "same_field key name \<longleftrightarrow> fold_name key = fold_name name"

fun decode_members :: "('a \<Rightarrow> string \<Rightarrow> json \<Rightarrow> 'a option) \<Rightarrow> 'a \<Rightarrow> (string \<times> json) list \<Rightarrow> 'a option" where
  "decode_members set_field a [] = Some a"
| "decode_members set_field a ((k, v) # kvs) = do {
     a' \<leftarrow> set_field a k v;
     decode_members set_field a' kvs
   }"

definition decode_struct :: "('a \<Rightarrow> string \<Rightarrow> json \<Rightarrow> 'a option) \<Rightarrow> 'a \<Rightarrow> json \<Rightarrow> 'a option" where
  "decode_struct set_field zero j = (case j of
     JObj kvs \<Rightarrow> decode_members set_field zero kvs
   | JNull \<Rightarrow> Some zero
   | _ \<Rightarrow> None)"

definition set_string :: "string \<Rightarrow> json \<Rightarrow> string option" where
  "set_string old j = (case j of JStr s \<Rightarrow> Some s | JNull \<Rightarrow> Some old | _ \<Rightarrow> None)"

definition set_int :: "int \<Rightarrow> json \<Rightarrow> int option" where
  "set_int old j = (case j of JNum l \<Rightarrow> parse_int l | JNull \<Rightarrow> Some old | _ \<Rightarrow> None)"

definition set_byte :: "json \<Rightarrow> char option" where
  "set_byte j = (case j of
     JNum l \<Rightarrow> (case parse_digits l of
         Some n \<Rightarrow> if n < 256 then Some (char_of n) else None
       | None \<Rightarrow> None)
   | JNull \<Rightarrow> Some (CHR 0x00)
   | _ \<Rightarrow> None)"

definition set_bytes :: "json \<Rightarrow> string option" where
  "set_bytes j = (case j of
     JStr s \<Rightarrow> b64_decode s
   | JArr xs \<Rightarrow> those (map set_byte xs)
   | JNull \<Rightarrow> Some []
   | _ \<Rightarrow> None)"

fun set_entries :: "headers \<Rightarrow> (string \<times> json) list \<Rightarrow> headers option" where
  "set_entries m [] = Some m"
| "set_entries m ((k, v) # kvs) = do {
     s \<leftarrow> set_string [] v;
     set_entries (fmupd k s m) kvs
   }"

definition set_map :: "headers \<Rightarrow> json \<Rightarrow> headers option" where
  "set_map old j = (case j of
     JObj kvs \<Rightarrow> set_entries old kvs
   | JNull \<Rightarrow> Some fmempty
   | _ \<Rightarrow> None)"

definition set_command :: "Command \<Rightarrow> string \<Rightarrow> json \<Rightarrow> Command option" where
  "set_command c k j =
     (if same_field k ''commandType'' then map_option (\<lambda>v. c\<lparr>cmdType := v\<rparr>) (set_int (cmdType c) j)
      else if same_field k ''conversationId'' then map_option (\<lambda>v. c\<lparr>cmdConv := v\<rparr>) (set_string (cmdConv c) j)
      else if same_field k ''data'' then map_option (\<lambda>v. c\<lparr>cmdData := v\<rparr>) (set_string (cmdData c) j)
      else Some c)"

definition set_request :: "HttpRequestData \<Rightarrow> string \<Rightarrow> json \<Rightarrow> HttpRequestData option" where
  "set_request r k j =
     (if same_field k ''headers'' then map_option (\<lambda>v. r\<lparr>rqHeaders := v\<rparr>) (set_map (rqHeaders r) j)
      else if same_field k ''method'' then map_option (\<lambda>v. r\<lparr>rqMethod := v\<rparr>) (set_string (rqMethod r) j)
      else if same_field k ''path'' then map_option (\<lambda>v. r\<lparr>rqPath := v\<rparr>) (set_string (rqPath r) j)
      else if same_field k ''content'' then map_option (\<lambda>v. r\<lparr>rqContent := v\<rparr>) (set_bytes j)
      else if same_field k ''contentHeaders'' then
        map_option (\<lambda>v. r\<lparr>rqContentHeaders := v\<rparr>) (set_map (rqContentHeaders r) j)
      else Some r)"

definition set_response :: "HttpResponseData \<Rightarrow> string \<Rightarrow> json \<Rightarrow> HttpResponseData option" where
  "set_response r k j =
     (if same_field k ''statusCode'' then map_option (\<lambda>v. r\<lparr>rsStatusCode := v\<rparr>) (set_int (rsStatusCode r) j)
      else if same_field k ''content'' then map_option (\<lambda>v. r\<lparr>rsContent := v\<rparr>) (set_bytes j)
      else if same_field k ''contentHeaders'' then
        map_option (\<lambda>v. r\<lparr>rsContentHeaders := v\<rparr>) (set_map (rsContentHeaders r) j)
      else if same_field k ''headers'' then map_option (\<lambda>v. r\<lparr>rsHeaders := v\<rparr>) (set_map (rsHeaders r) j)
      else Some r)"

definition set_info :: "NtunlInfo \<Rightarrow> string \<Rightarrow> json \<Rightarrow> NtunlInfo option" where
  "set_info i k j =
     (if same_field k ''url'' then map_option (\<lambda>v. i\<lparr>niUrl := v\<rparr>) (set_string (niUrl i) j)
      else Some i)"

definition Unmarshal :: "string \<Rightarrow> Command option" where
  "Unmarshal data = do {
     j \<leftarrow> parse_json data;
     decode_struct set_command \<lparr>cmdType = 0, cmdConv = [], cmdData = []\<rparr> j
   }"

definition unmarshal_request :: "string \<Rightarrow> HttpRequestData option" where
  "unmarshal_request data = do { j \<leftarrow> parse_json data; decode_struct set_request zero_request j }"

definition unmarshal_response :: "string \<Rightarrow> HttpResponseData option" where
  "unmarshal_response data = do { j \<leftarrow> parse_json data; decode_struct set_response zero_response j }"

definition unmarshal_info :: "string \<Rightarrow> NtunlInfo option" where
  "unmarshal_info data = do { j \<leftarrow> parse_json data; decode_struct set_info \<lparr>niUrl = []\<rparr> j }"

subsection \<open>Messages the round trip is about\<close>

definition text_map :: "headers \<Rightarrow> bool" where
  "text_map m \<longleftrightarrow> fmpred (\<lambda>k v. valid_utf8 k \<and> valid_utf8 v) m"

definition command_ok :: "Command \<Rightarrow> bool" where
  "command_ok c \<longleftrightarrow> int64_range (cmdType c) \<and> valid_utf8 (cmdConv c) \<and> valid_utf8 (cmdData c)"

definition request_ok :: "HttpRequestData \<Rightarrow> bool" where
  "request_ok r \<longleftrightarrow> text_map (rqHeaders r) \<and> valid_utf8 (rqMethod r) \<and> valid_utf8 (rqPath r)
     \<and> text_map (rqContentHeaders r)"

definition response_ok :: "HttpResponseData \<Rightarrow> bool" where
  "response_ok r \<longleftrightarrow> int64_range (rsStatusCode r) \<and> text_map (rsContentHeaders r) \<and> text_map (rsHeaders r)"

definition info_ok :: "NtunlInfo \<Rightarrow> bool" where
  "info_ok i \<longleftrightarrow> valid_utf8 (niUrl i)"

lemmas message_ok_defs = command_ok_def request_ok_def response_ok_def info_ok_def

subsection \<open>Fields\<close>

lemma same_field_refl [simp]: "same_field k k"
  by (simp add: same_field_def)

lemma other_fields [simp]:
  "\<not> same_field ''conversationId'' ''commandType''"
  "\<not> same_field ''data'' ''commandType''" "\<not> same_field ''data'' ''conversationId''"
  "\<not> same_field ''method'' ''headers''"
  "\<not> same_field ''path'' ''headers''" "\<not> same_field ''path'' ''method''"
  "\<not> same_field ''content'' ''headers''" "\<not> same_field ''content'' ''method''"
  "\<not> same_field ''content'' ''path''" "\<not> same_field ''content'' ''statusCode''"
  "\<not> same_field ''contentHeaders'' ''headers''" "\<not> same_field ''contentHeaders'' ''method''"
  "\<not> same_field ''contentHeaders'' ''path''" "\<not> same_field ''contentHeaders'' ''content''"
  "\<not> same_field ''contentHeaders'' ''statusCode''"
  "\<not> same_field ''headers'' ''statusCode''" "\<not> same_field ''headers'' ''content''"
  "\<not> same_field ''headers'' ''contentHeaders''"
  by code_simp+

lemma set_entries_strings:
  "set_entries m (map (\<lambda>(k, v). (k, JStr v)) kvs) = Some (m ++\<^sub>f fmap_of_list (rev kvs))"
  by (induction kvs arbitrary: m) (auto simp: set_string_def)

lemma distinct_sorted_list_of_fmap: "distinct (map fst (sorted_list_of_fmap m))"
  by (simp add: sorted_list_of_fmap_def sorted_list_of_fset.rep_eq comp_def)

lemma fmap_of_sorted_list: "fmap_of_list (rev (sorted_list_of_fmap m)) = m"
proof (rule fmap_ext)
  have "map_of (rev (sorted_list_of_fmap m)) = map_of (sorted_list_of_fmap m)"
    by (rule map_of_inject_set [THEN iffD2])
      (simp_all add: distinct_sorted_list_of_fmap flip: rev_map)
  then show "fmlookup (fmap_of_list (rev (sorted_list_of_fmap m))) k = fmlookup m k" for k
    by simp
qed

lemma set_map_json [simp]: "set_map fmempty (json_of_map m) = Some m"
  by (simp add: set_map_def json_of_map_def set_entries_strings fmap_of_sorted_list)

lemma set_bytes_content [simp]: "set_bytes (JStr (b64_encode b)) = Some b"
  by (simp add: set_bytes_def b64_roundtrip)

subsection \<open>Documents\<close>

lemma b64_encode_ascii: "ascii (b64_encode b)"
proof -
  have "n < 64 \<Longrightarrow> (of_char (b64_char n) :: nat) < 128" for n
    by (auto simp: of_char_b64_char)
  then show ?thesis
    by (induction b rule: b64_encode.induct) (simp_all add: Let_def byte_parts)
qed

lemma json_ok_map: "text_map m \<Longrightarrow> json_ok (json_of_map m)"
proof -
  assume "text_map m"
  then have "list_all (\<lambda>(k, v). valid_utf8 k \<and> valid_utf8 v) (sorted_list_of_fmap m)"
    by (simp add: text_map_def fmpred_iff)
  then show ?thesis by (auto simp: json_of_map_def list_all_iff)
qed

lemma json_ok_content: "list_all (\<lambda>(k, v). valid_utf8 k \<and> json_ok v) (json_content b)"
  by (simp add: json_content_def ascii_valid_utf8 b64_encode_ascii)

lemma documents_ok:
  "command_ok c \<Longrightarrow> json_ok (command_json c)"
  "request_ok r \<Longrightarrow> json_ok (request_json r)"
  "response_ok s \<Longrightarrow> json_ok (response_json s)"
  "info_ok i \<Longrightarrow> json_ok (info_json i)"
  by (simp_all add: command_json_def request_json_def response_json_def info_json_def
      message_ok_defs json_ok_map json_ok_content ascii_valid_utf8)

lemma decode_members_append:
  "decode_members f a (xs @ ys) = do { a' \<leftarrow> decode_members f a xs; decode_members f a' ys }"
  by (induction f a xs rule: decode_members.induct) (auto split: Option.bind_splits)

lemma decode_command: "int64_range (cmdType c) \<Longrightarrow> decode_struct set_command z (command_json c) = Some c"
  by (simp add: decode_struct_def command_json_def set_command_def set_int_def set_string_def parse_int_itoa)

lemma decode_request: "decode_struct set_request zero_request (request_json r) = Some r"
  by (simp add: decode_struct_def request_json_def set_request_def set_string_def json_content_def
      zero_request_def)

lemma decode_response:
  "int64_range (rsStatusCode r) \<Longrightarrow> decode_struct set_response zero_response (response_json r) = Some r"
  by (simp add: decode_struct_def response_json_def set_response_def set_int_def json_content_def
      zero_response_def parse_int_itoa)

lemma decode_info: "decode_struct set_info z (info_json i) = Some i"
  by (simp add: decode_struct_def info_json_def set_info_def set_string_def)

subsection \<open>The codec interface\<close>

text \<open>
  What the host and the client rely on: a payload that is well formed comes back as it was, and
  its text can travel inside the \<open>Data\<close> string of a \<open>Command\<close>.
\<close>

locale codec =
  fixes enc :: "'a \<Rightarrow> string"
    and dec :: "string \<Rightarrow> 'a option"
    and ok :: "'a \<Rightarrow> bool"
  assumes dec_enc: "ok x \<Longrightarrow> dec (enc x) = Some x"
    and enc_text: "ok x \<Longrightarrow> valid_utf8 (enc x)"
begin

lemma enc_inject: "ok x \<Longrightarrow> ok y \<Longrightarrow> enc x = enc y \<Longrightarrow> x = y"
  using dec_enc by (metis option.inject)

end

interpretation command_codec: codec Marshal Unmarshal command_ok
  by unfold_locales
    (simp_all add: Marshal_def Unmarshal_def parse_json_print documents_ok valid_utf8_print
      decode_command command_ok_def)

text \<open>A codec whose texts travel as the \<open>Data\<close> of a command.\<close>

locale payload_codec = codec enc dec ok
  for enc :: "'a \<Rightarrow> string" and dec :: "string \<Rightarrow> 'a option" and ok :: "'a \<Rightarrow> bool" +
  fixes kind :: CommandType
  assumes kind_range: "int64_range kind"
begin

lemma open_frame:
  assumes "ok x" "valid_utf8 cid"
  shows "do { c \<leftarrow> Unmarshal (Marshal \<lparr>cmdType = kind, cmdConv = cid, cmdData = enc x\<rparr>);
              p \<leftarrow> dec (cmdData c);
              Some (cmdType c, cmdConv c, p) } = Some (kind, cid, x)"
proof -
  have "command_ok \<lparr>cmdType = kind, cmdConv = cid, cmdData = enc x\<rparr>"
    using assms enc_text kind_range by (simp add: command_ok_def)
  then show ?thesis by (simp add: command_codec.dec_enc dec_enc assms(1))
qed

lemma frame_inject:
  assumes "ok x" "ok y" "valid_utf8 cid" "valid_utf8 cid'"
    and "Marshal \<lparr>cmdType = kind, cmdConv = cid, cmdData = enc x\<rparr> =
         Marshal \<lparr>cmdType = kind, cmdConv = cid', cmdData = enc y\<rparr>"
  shows "cid = cid' \<and> x = y"
proof -
  have "Some (kind, cid, x) = Some (kind, cid', y)"
    using open_frame [OF assms(1,3)] unfolding assms(5) open_frame [OF assms(2,4)] by (rule sym)
  then show ?thesis by simp
qed

end

interpretation request_codec: payload_codec marshal_request unmarshal_request request_ok CmdHttpRequest
  by unfold_locales
    (simp_all add: marshal_request_def unmarshal_request_def parse_json_print documents_ok
      valid_utf8_print decode_request cmd_type_defs int64_range_def)

interpretation response_codec: payload_codec marshal_response unmarshal_response response_ok CmdHttpResponse
  by unfold_locales
    (simp_all add: marshal_response_def unmarshal_response_def parse_json_print documents_ok
      valid_utf8_print decode_response response_ok_def cmd_type_defs int64_range_def)

interpretation info_codec: payload_codec marshal_info unmarshal_info info_ok CmdNtunlInfo
  by unfold_locales
    (simp_all add: marshal_info_def unmarshal_info_def parse_json_print documents_ok
      valid_utf8_print decode_info cmd_type_defs int64_range_def)

subsection \<open>Properties\<close>

text \<open>
  C4. Whatever request or response one side frames, the other side unframes: decoding the message
  and then its data gives the same kind, conversation id and payload, for any body bytes, any
  header maps and any conversation id of valid UTF-8 text.
\<close>

theorem frames_roundtrip:
  assumes "request_ok rq" "response_ok rs" "valid_utf8 cid"
  shows "do { c \<leftarrow> Unmarshal (Marshal \<lparr>cmdType = CmdHttpRequest, cmdConv = cid, cmdData = marshal_request rq\<rparr>);
              p \<leftarrow> unmarshal_request (cmdData c);
              Some (cmdType c, cmdConv c, p) } = Some (CmdHttpRequest, cid, rq) \<and>
         do { c \<leftarrow> Unmarshal (Marshal \<lparr>cmdType = CmdHttpResponse, cmdConv = cid, cmdData = marshal_response rs\<rparr>);
              p \<leftarrow> unmarshal_response (cmdData c);
              Some (cmdType c, cmdConv c, p) } = Some (CmdHttpResponse, cid, rs)"
  using request_codec.open_frame [OF assms(1,3)] response_codec.open_frame [OF assms(2,3)] by (rule conjI)

definition sample_request :: HttpRequestData where
  "sample_request = \<lparr>rqHeaders = fmap_of_list [(''Host'', ''apple.example''), (''Accept'', ''*/*'')],
     rqMethod = ''POST'', rqPath = ''/items?id=1'', rqContent = [CHR 0x00, CHR 0xFF],
     rqContentHeaders = fmap_of_list [(''Content-Type'', ''text/plain'')]\<rparr>"

definition sample_response :: HttpResponseData where
  "sample_response = \<lparr>rsStatusCode = 201, rsContent = [CHR 0x80],
     rsContentHeaders = fmap_of_list [(''Content-Type'', ''text/plain'')],
     rsHeaders = fmap_of_list [(''Server'', ''x'')]\<rparr>"

lemma samples_ok: "request_ok sample_request" "response_ok sample_response"
  by code_simp+

lemma frames_roundtrip_witness:
  "do { c \<leftarrow> Unmarshal (Marshal \<lparr>cmdType = CmdHttpRequest, cmdConv = ''a-1'', cmdData = marshal_request sample_request\<rparr>);
        p \<leftarrow> unmarshal_request (cmdData c);
        Some (cmdType c, cmdConv c, p) } = Some (CmdHttpRequest, ''a-1'', sample_request)"
proof -
  have "valid_utf8 ''a-1''" by code_simp
  from frames_roundtrip [OF samples_ok this] show ?thesis by (rule conjunct1)
qed

end
