(* ===== verification/TunnelHost.thy ===== *)
theory TunnelHost
  imports Auth Protocol
begin

text \<open>
  The tunnel side of the host (\<open>internal/host/tunnel.go\<close>, \<open>internal/host/config.go\<close>,
  and the interface \<open>internal/host/portal/live.go\<close> it implements).

  \<^item> A \<open>*clientInfo\<close> is an index into \<open>objs\<close>; the map \<open>clients\<close> holds such
    a pointer or nil (\<open>None\<close>, the placeholder of a name being claimed).
  \<^item> A channel of one pending request is an index into \<open>chans\<close>: what its buffer of one
    place holds.
  \<^item> WebSocket connections are numbers; \<open>outbox\<close> lists the messages written, in order, and
    \<open>closed\<close> the connections closed. Whether the library accepts a connection, whether a
    write succeeds and what a read delivers are arguments, as are the UUIDs.
  \<^item> \<open>rng\<close> is the sequence of raw numbers the random generator draws.
  \<^item> What lies between two acquisitions of the mutex is a definition of its own, so that
    the concurrent system can interleave them.
\<close>

subsection \<open>Settings (\<open>config.go\<close>)\<close>

record SslSettings =
  sslEnabledFlag :: bool
  sslAcceptInvalid :: bool

record ClientDomainSettings =
  cdDomain :: string
  cdSubDomains :: "string list"

record TunnelHostSettings =
  thHostName :: string
  thPort :: int
  thClientDomain :: ClientDomainSettings
  thSsl :: "SslSettings option"

subsection \<open>The live view (\<open>portal/live.go\<close>)\<close>

record LiveTunnel =
  ltUserID :: int
  ltSubdomain :: string
  ltRemoteAddr :: string
  ltConnectedAt :: int
  ltRequests :: "64 word"

record LiveRequest =
  lrTime :: int
  lrMethod :: string
  lrPath :: string
  lrStatus :: int

subsection \<open>State\<close>

definition fallbackWords :: "string list" where
  "fallbackWords = [''apple'', ''banana'', ''cherry'', ''date'', ''elderberry'', ''fig'', ''grape'',
     ''honeydew'', ''alpha'', ''beta'', ''gamma'', ''delta'', ''epsilon'', ''zeta'', ''eta'', ''theta'']"

definition SubdomainHeader :: string where "SubdomainHeader = ''Ntunl-Subdomain''"

record clientInfo =
  ciId :: string
  ciUserID :: int
  ciName :: string
  ciRemoteAddr :: string
  ciConnectedAt :: int
  ciEventID :: int
  ciRequests :: "64 word"
  ciConn :: nat

record TunnelHost =
  settings :: TunnelHostSettings
  store :: db
  clients :: "(string, nat option) gomap"
  objs :: "clientInfo list"
  pending :: "(string, nat) gomap"
  chans :: "HttpResponseData option list"
  recent :: "(int, LiveRequest list) gomap"
  outbox :: "(nat \<times> string) list"
  closed :: "nat list"

definition recentRequestCap :: nat where "recentRequestCap = 100"

definition NewTunnelHost :: "TunnelHostSettings \<Rightarrow> db \<Rightarrow> TunnelHost" where
  "NewTunnelHost cfg d = \<lparr>settings = cfg, store = d, clients = fmempty, objs = [], pending = fmempty,
     chans = [], recent = fmempty, outbox = [], closed = []\<rparr>"

definition lower :: "string \<Rightarrow> string" where
  "lower s = map (\<lambda>c. if CHR ''A'' \<le> c \<and> c \<le> CHR ''Z'' then char_of (of_char c + 32 :: nat) else c) s"

subsection \<open>Subdomains\<close>

definition name_live :: "TunnelHost \<Rightarrow> string \<Rightarrow> bool" where
  "name_live h name \<longleftrightarrow> fmlookup (clients h) (lower name) \<noteq> None"

definition claim :: "string \<Rightarrow> TunnelHost \<Rightarrow> TunnelHost" where
  "claim name h = h\<lparr>clients := fmupd (lower name) None (clients h)\<rparr>"

text \<open>The first loop stops at the first pool member that matches, taken or not.\<close>

fun pool_requested :: "TunnelHost \<Rightarrow> string \<Rightarrow> string list \<Rightarrow> string option" where
  "pool_requested h req [] = None"
| "pool_requested h req (name # pool) =
     (if lower name = lower req then (if \<not> name_live h name then Some name else None)
      else pool_requested h req pool)"

fun pool_first_free :: "TunnelHost \<Rightarrow> string list \<Rightarrow> string option" where
  "pool_first_free h [] = None"
| "pool_first_free h (name # pool) = (if \<not> name_live h name then Some name else pool_first_free h pool)"

text \<open>\<open>randInt\<close>: the \<open>k\<close>-th draw below \<open>n\<close>. Each attempt draws twice.\<close>

definition randInt :: "(nat \<Rightarrow> nat) \<Rightarrow> nat \<Rightarrow> nat \<Rightarrow> nat" where
  "randInt rng k n = rng k mod n"

definition random_word :: "(nat \<Rightarrow> nat) \<Rightarrow> nat \<Rightarrow> string" where
  "random_word rng attempt =
     fallbackWords ! randInt rng (2 * attempt) (length fallbackWords)
       @ itoa (int (randInt rng (2 * attempt + 1) 999 + 1))"

text \<open>The loop over attempts: \<open>left\<close> attempts remain.\<close>

fun random_name :: "TunnelHost \<Rightarrow> (nat \<Rightarrow> nat) \<Rightarrow> nat \<Rightarrow> nat \<Rightarrow> string option" where
  "random_name h rng attempt 0 = None"
| "random_name h rng attempt (Suc left) =
     (let word = random_word rng attempt in
      if \<not> name_live h word then Some word else random_name h rng (Suc attempt) left)"

definition maxAttempts :: nat where "maxAttempts = 1000"

definition assignSubdomain :: "(nat \<Rightarrow> nat) \<Rightarrow> string \<Rightarrow> TunnelHost \<Rightarrow> (string + string) \<times> TunnelHost" where
  "assignSubdomain rng req h =
     (let pool = cdSubDomains (thClientDomain (settings h)) in
      if pool \<noteq> [] then
        (case (if req \<noteq> [] then pool_requested h req pool else None) of
           Some name \<Rightarrow> (Inr name, claim name h)
         | None \<Rightarrow>
             (case pool_first_free h pool of
                Some name \<Rightarrow> (Inr name, claim name h)
              | None \<Rightarrow> (Inl ''no subdomains available'', h)))
      else if req \<noteq> [] then
        (if name_live h req then (Inl ''requested subdomain already in use'', h)
         else (Inr req, claim req h))
      else
        (case random_name h rng 0 maxAttempts of
           Some word \<Rightarrow> (Inr word, claim word h)
         | None \<Rightarrow> (Inl ''could not allocate a free subdomain'', h)))"

definition releaseName :: "string \<Rightarrow> TunnelHost \<Rightarrow> TunnelHost" where
  "releaseName name h =
     (case fmlookup (clients h) (lower name) of
        Some (Some p) \<Rightarrow> h
      | _ \<Rightarrow> h\<lparr>clients := fmdrop (lower name) (clients h)\<rparr>)"

subsection \<open>Sending\<close>

text \<open>\<open>written\<close> says whether the library's write succeeds.\<close>

definition send :: "bool \<Rightarrow> nat \<Rightarrow> CommandType \<Rightarrow> string \<Rightarrow> string \<Rightarrow> TunnelHost \<Rightarrow> bool \<times> TunnelHost" where
  "send written conn t conversationId data h =
     (let raw = Marshal \<lparr>cmdType = t, cmdConv = conversationId, cmdData = data\<rparr> in
      if written then (True, h\<lparr>outbox := outbox h @ [(conn, raw)]\<rparr>) else (False, h))"

subsection \<open>Reading\<close>

text \<open>The conversation and the response of one message, when it is a well formed response.\<close>

definition decode_reply :: "string \<Rightarrow> (string \<times> HttpResponseData) option" where
  "decode_reply data =
     (case Unmarshal data of
        None \<Rightarrow> None
      | Some cmd \<Rightarrow>
          (if cmdType cmd \<noteq> CmdHttpResponse then None
           else if cmdData cmd \<noteq> [] then
             (case unmarshal_response (cmdData cmd) of
                None \<Rightarrow> None | Some resp \<Rightarrow> Some (cmdConv cmd, resp))
           else Some (cmdConv cmd, zero_response)))"

text \<open>Under the mutex the waiting channel is taken out of \<open>pending\<close>; then the reply is sent to it.\<close>

definition take_pending :: "string \<Rightarrow> TunnelHost \<Rightarrow> nat option \<times> TunnelHost" where
  "take_pending cid h =
     (case fmlookup (pending h) cid of
        None \<Rightarrow> (None, h)
      | Some ch \<Rightarrow> (Some ch, h\<lparr>pending := fmdrop cid (pending h)\<rparr>))"

definition put_chan :: "nat \<Rightarrow> HttpResponseData \<Rightarrow> TunnelHost \<Rightarrow> TunnelHost" where
  "put_chan ch resp h = h\<lparr>chans := (chans h)[ch := Some resp]\<rparr>"

text \<open>
  One turn of the read loop. A send to a channel whose place is taken blocks for ever, which is
  the result \<open>None\<close>.
\<close>

definition pump_message :: "string \<Rightarrow> TunnelHost \<Rightarrow> TunnelHost option" where
  "pump_message data h =
     (case decode_reply data of
        None \<Rightarrow> Some h
      | Some (cid, resp) \<Rightarrow>
          (case take_pending cid h of
             (None, h') \<Rightarrow> Some h'
           | (Some ch, h') \<Rightarrow>
               (if chans h' ! ch \<noteq> None then None else Some (put_chan ch resp h'))))"

text \<open>
  \<open>dropClient\<close>: under the mutex, then the store and the connection.
\<close>

definition unregister :: "nat \<Rightarrow> TunnelHost \<Rightarrow> TunnelHost" where
  "unregister p h =
     (let k = lower (ciName (objs h ! p)) in
      if fmlookup (clients h) k = Some (Some p) then h\<lparr>clients := fmdrop k (clients h)\<rparr> else h)"

definition close_client :: "int \<Rightarrow> nat \<Rightarrow> TunnelHost \<Rightarrow> TunnelHost" where
  "close_client clock p h =
     (let c = objs h ! p;
          h1 = (if ciEventID c \<noteq> 0 then h\<lparr>store := snd (CloseTunnelEvent clock (store h) (ciEventID c))\<rparr> else h)
      in h1\<lparr>closed := closed h1 @ [ciConn c]\<rparr>)"

definition dropClient :: "int \<Rightarrow> nat \<Rightarrow> TunnelHost \<Rightarrow> TunnelHost" where
  "dropClient clock p h = close_client clock p (unregister p h)"

text \<open>The whole loop on the messages read until the connection fails, then the deferred drop.\<close>

fun read_loop :: "string list \<Rightarrow> TunnelHost \<Rightarrow> TunnelHost option" where
  "read_loop [] h = Some h"
| "read_loop (m # ms) h = (case pump_message m h of None \<Rightarrow> None | Some h' \<Rightarrow> read_loop ms h')"

definition readPump :: "int \<Rightarrow> nat \<Rightarrow> string list \<Rightarrow> TunnelHost \<Rightarrow> TunnelHost option" where
  "readPump clock p msgs h = map_option (dropClient clock p) (read_loop msgs h)"

subsection \<open>A connection\<close>

text \<open>Authentication, before the upgrade.\<close>

definition authenticate :: "Env \<Rightarrow> Request \<Rightarrow> Writer \<Rightarrow> TunnelHost \<Rightarrow> (Writer + User) \<times> TunnelHost" where
  "authenticate e r w h =
     (let token = BearerToken r in
      if token = [] then (Inl (Error ''missing bearer token'' StatusUnauthorized w), h)
      else (case ResolveToken e (store h) token of
              (Inl _, d) \<Rightarrow> (Inl (Error ''invalid token'' StatusUnauthorized w), h\<lparr>store := d\<rparr>)
            | (Inr user, d) \<Rightarrow> (Inr user, h\<lparr>store := d\<rparr>)))"

text \<open>The registration of an accepted connection; the pointer is the next free index.\<close>

definition register :: "int \<Rightarrow> string \<Rightarrow> nat \<Rightarrow> User \<Rightarrow> string \<Rightarrow> string \<Rightarrow> TunnelHost \<Rightarrow> nat \<times> TunnelHost" where
  "register clock uuid conn user name remote h =
     (let p = length (objs h);
          c = \<lparr>ciId = uuid, ciUserID = userID user, ciName = name, ciRemoteAddr = remote,
               ciConnectedAt = clock, ciEventID = 0, ciRequests = 0, ciConn = conn\<rparr>
      in (p, h\<lparr>objs := objs h @ [c], clients := fmupd (lower name) (Some p) (clients h)\<rparr>))"

definition open_event :: "int \<Rightarrow> nat \<Rightarrow> TunnelHost \<Rightarrow> TunnelHost" where
  "open_event clock p h =
     (let c = objs h ! p in
      case OpenTunnelEvent clock (store h) (ciUserID c) (ciName c) (ciRemoteAddr c) of
        (Inl _, d) \<Rightarrow> h\<lparr>store := d\<rparr>
      | (Inr eid, d) \<Rightarrow> h\<lparr>store := d, objs := (objs h)[p := c\<lparr>ciEventID := eid\<rparr>]\<rparr>)"

definition greet :: "bool \<Rightarrow> string \<Rightarrow> nat \<Rightarrow> TunnelHost \<Rightarrow> TunnelHost" where
  "greet written uuid p h =
     (let domain = cdDomain (thClientDomain (settings h)); c = objs h ! p in
      if domain \<noteq> []
      then snd (send written (ciConn c) CmdNtunlInfo uuid
                  (marshal_info \<lparr>niUrl = ''https://'' @ ciName c @ ''.'' @ domain\<rparr>) h)
      else h)"

text \<open>
  What one connection takes from outside: the random draws, the connection the library accepts
  (\<open>None\<close> when it refuses), two UUIDs, whether the greeting is written, and the messages
  read before the connection fails.
\<close>

record ConnInput =
  inRng :: "nat \<Rightarrow> nat"
  inAccept :: "nat option"
  inId :: string
  inInfoId :: string
  inGreeted :: bool
  inMessages :: "string list"

text \<open>The handler, with nothing else running. \<open>None\<close> when the read loop blocks for ever.\<close>

definition handleConn :: "Env \<Rightarrow> ConnInput \<Rightarrow> Request \<Rightarrow> Writer \<Rightarrow> TunnelHost \<Rightarrow> (Writer \<times> TunnelHost) option" where
  "handleConn e i r w h =
     (case authenticate e r w h of
        (Inl w', h1) \<Rightarrow> Some (w', h1)
      | (Inr user, h1) \<Rightarrow>
          (case assignSubdomain (inRng i) (header_get (rHeader r) SubdomainHeader) h1 of
             (Inl err, h2) \<Rightarrow> Some (Error err StatusServiceUnavailable w, h2)
           | (Inr name, h2) \<Rightarrow>
               (case inAccept i of
                  None \<Rightarrow> Some (w, releaseName name h2)
                | Some conn \<Rightarrow>
                    (case register (now e) (inId i) conn user name (rRemoteAddr r) h2 of
                       (p, h3) \<Rightarrow>
                         map_option (\<lambda>h'. (w, h'))
                           (readPump (now e) p (inMessages i)
                              (greet (inGreeted i) (inInfoId i) p (open_event (now e) p h3)))))))"

subsection \<open>Forwarding a request\<close>

definition recordRequest :: "int \<Rightarrow> int \<Rightarrow> string \<Rightarrow> string \<Rightarrow> int \<Rightarrow> TunnelHost \<Rightarrow> TunnelHost" where
  "recordRequest clock uid method path status h =
     (let old = (case fmlookup (recent h) uid of None \<Rightarrow> [] | Some b \<Rightarrow> b);
          buf = old @ [\<lparr>lrTime = clock, lrMethod = method, lrPath = path, lrStatus = status\<rparr>];
          buf' = (if length buf > recentRequestCap then drop (length buf - recentRequestCap) buf else buf)
      in h\<lparr>recent := fmupd uid buf' (recent h)\<rparr>)"

datatype send_error = WriteFailed | TimedOut | Cancelled

definition forget_pending :: "string \<Rightarrow> TunnelHost \<Rightarrow> TunnelHost" where
  "forget_pending cid h = h\<lparr>pending := fmdrop cid (pending h)\<rparr>"

text \<open>The part before the wait: the new channel, its registration, and the message.\<close>

definition open_pending :: "string \<Rightarrow> TunnelHost \<Rightarrow> nat \<times> TunnelHost" where
  "open_pending cid h =
     (let ch = length (chans h) in
      (ch, h\<lparr>chans := chans h @ [None], pending := fmupd cid ch (pending h)\<rparr>))"

definition begin_request :: "bool \<Rightarrow> string \<Rightarrow> HttpRequestData \<Rightarrow> nat \<Rightarrow> TunnelHost \<Rightarrow> (send_error + nat) \<times> TunnelHost" where
  "begin_request written cid req p h =
     (case open_pending cid h of
        (ch, h1) \<Rightarrow>
          (case send written (ciConn (objs h1 ! p)) CmdHttpRequest cid (marshal_request req) h1 of
             (True, h2) \<Rightarrow> (Inr ch, h2)
           | (False, h2) \<Rightarrow> (Inl WriteFailed, forget_pending cid h2)))"

text \<open>
  The \<open>select\<close>: which case is ready first is an argument. The reply case is ready only when
  the channel holds a reply; while it holds none the timer is the case that comes.
\<close>

datatype wake = Reply | Timer | Done

definition finish_request :: "int \<Rightarrow> wake \<Rightarrow> string \<Rightarrow> nat \<Rightarrow> HttpRequestData \<Rightarrow> nat \<Rightarrow> TunnelHost \<Rightarrow>
    (send_error + HttpResponseData) \<times> TunnelHost" where
  "finish_request clock wk cid ch req p h =
     (case (wk, chans h ! ch) of
        (Reply, Some resp) \<Rightarrow>
          (let c = objs h ! p;
               h1 = h\<lparr>chans := (chans h)[ch := None],
                      objs := (objs h)[p := c\<lparr>ciRequests := ciRequests c + 1\<rparr>]\<rparr>
           in (Inr resp, recordRequest clock (ciUserID c) (rqMethod req) (rqPath req) (rsStatusCode resp) h1))
      | (Done, _) \<Rightarrow> (Inl Cancelled, forget_pending cid h)
      | _ \<Rightarrow> (Inl TimedOut, forget_pending cid h))"

text \<open>The whole call; \<open>others\<close> is what the other goroutines do while it waits.\<close>

record SendInput =
  siUuid :: string
  siWritten :: bool
  siOthers :: "TunnelHost \<Rightarrow> TunnelHost"
  siWake :: wake

definition SendHttpRequest :: "int \<Rightarrow> SendInput \<Rightarrow> HttpRequestData \<Rightarrow> nat \<Rightarrow> TunnelHost \<Rightarrow>
    (send_error + HttpResponseData) \<times> TunnelHost" where
  "SendHttpRequest clock i req p h =
     (case begin_request (siWritten i) (siUuid i) req p h of
        (Inl er, h1) \<Rightarrow> (Inl er, h1)
      | (Inr ch, h1) \<Rightarrow> finish_request clock (siWake i) (siUuid i) ch req p (siOthers i h1))"

subsection \<open>Lookups and the live view\<close>

definition GetClient :: "TunnelHost \<Rightarrow> string \<Rightarrow> nat option" where
  "GetClient h name = (case fmlookup (clients h) (lower name) of Some c \<Rightarrow> c | None \<Rightarrow> None)"

text \<open>The loop over the map in the order \<open>range\<close> yields it.\<close>

definition GetAnyClient :: "(string \<times> nat option) list \<Rightarrow> nat option" where
  "GetAnyClient it = first_some snd it"

definition liveTunnel :: "clientInfo \<Rightarrow> LiveTunnel" where
  "liveTunnel c = \<lparr>ltUserID = ciUserID c, ltSubdomain = ciName c, ltRemoteAddr = ciRemoteAddr c,
     ltConnectedAt = ciConnectedAt c, ltRequests = ciRequests c\<rparr>"

fun ActiveByUser :: "TunnelHost \<Rightarrow> (string \<times> nat option) list \<Rightarrow> int \<Rightarrow> LiveTunnel list" where
  "ActiveByUser h [] uid = []"
| "ActiveByUser h ((k, c) # it) uid =
     (case c of
        Some p \<Rightarrow> (if ciUserID (objs h ! p) = uid then [liveTunnel (objs h ! p)] else []) @ ActiveByUser h it uid
      | None \<Rightarrow> ActiveByUser h it uid)"

fun AllActive :: "TunnelHost \<Rightarrow> (string \<times> nat option) list \<Rightarrow> LiveTunnel list" where
  "AllActive h [] = []"
| "AllActive h ((k, c) # it) =
     (case c of Some p \<Rightarrow> liveTunnel (objs h ! p) # AllActive h it | None \<Rightarrow> AllActive h it)"

text \<open>The loop from the last entry down: \<open>i\<close> entries are left to look at.\<close>

fun recent_loop :: "LiveRequest list \<Rightarrow> int \<Rightarrow> nat \<Rightarrow> LiveRequest list \<Rightarrow> LiveRequest list" where
  "recent_loop buf limit 0 out = out"
| "recent_loop buf limit (Suc i) out =
     (if int (length out) < limit then recent_loop buf limit i (out @ [buf ! i]) else out)"

definition RecentRequests :: "TunnelHost \<Rightarrow> int \<Rightarrow> int \<Rightarrow> LiveRequest list" where
  "RecentRequests h uid limit =
     (let buf = (case fmlookup (recent h) uid of None \<Rightarrow> [] | Some b \<Rightarrow> b)
      in recent_loop buf limit (length buf) [])"

text \<open>\<open>listenAddr\<close>, with \<open>net.JoinHostPort\<close>.\<close>

definition JoinHostPort :: "string \<Rightarrow> string \<Rightarrow> string" where
  "JoinHostPort host port =
     (if CHR '':'' \<in> set host then ''['' @ host @ '']:'' @ port else host @ '':'' @ port)"

definition listenAddr :: "string \<Rightarrow> int \<Rightarrow> string" where
  "listenAddr hostName port =
     (if hostName = [] \<or> hostName = ''*'' then '':'' @ itoa port else JoinHostPort hostName (itoa port))"

subsection \<open>Loops\<close>

lemma lower_map: "lower s = map lower_byte s"
  by (simp add: lower_def lower_byte_def)

lemma lower_to_lower: "lower s = to_lower s"
  by (simp add: lower_map to_lower_def)

lemma recent_loop_take:
  "i \<le> length buf \<Longrightarrow> recent_loop buf limit i out = out @ take (nat limit - length out) (rev (take i buf))"
proof (induction buf limit i out rule: recent_loop.induct)
  case (2 buf limit i out)
  have r: "rev (take (Suc i) buf) = buf ! i # rev (take i buf)"
    using 2(2) by (simp add: take_Suc_conv_app_nth)
  show ?case
  proof (cases "int (length out) < limit")
    case True
    then have "nat limit - length out = Suc (nat limit - length (out @ [buf ! i]))" by simp
    with True show ?thesis using 2 by (simp add: r)
  qed (simp add: r)
qed simp

lemma RecentRequests_take:
  "RecentRequests h uid limit =
    take (nat limit) (rev (case fmlookup (recent h) uid of None \<Rightarrow> [] | Some b \<Rightarrow> b))"
  by (simp add: RecentRequests_def Let_def recent_loop_take split: option.split)

lemma AllActive_map: "AllActive h it = map (\<lambda>p. liveTunnel (objs h ! p)) (List.map_filter snd it)"
  by (induction h it rule: AllActive.induct) (auto simp: List.map_filter_simps split: option.split)

lemma ActiveByUser_filter: "ActiveByUser h it uid = filter (\<lambda>t. ltUserID t = uid) (AllActive h it)"
  by (induction h it uid rule: ActiveByUser.induct) (auto simp: liveTunnel_def split: option.split)

lemma pool_requested_SomeD:
  "pool_requested h req pool = Some name \<Longrightarrow> name \<in> set pool \<and> lower name = lower req \<and> \<not> name_live h name"
  by (induction h req pool rule: pool_requested.induct) (auto split: if_splits)

lemma pool_requested_None:
  "pool_requested h req pool = None \<Longrightarrow> n \<in> set pool \<Longrightarrow> lower n = lower req \<Longrightarrow> name_live h n"
  by (induction h req pool rule: pool_requested.induct) (auto simp: name_live_def split: if_splits)

lemma pool_first_free_find: "pool_first_free h pool = find (\<lambda>n. \<not> name_live h n) pool"
  by (induction h pool rule: pool_first_free.induct) auto

lemma random_name_find:
  "random_name h rng a n = find (\<lambda>w. \<not> name_live h w) (map (random_word rng) [a..<a + n])"
  by (induction h rng a n rule: random_name.induct)
    (simp_all add: Let_def upt_conv_Cons del: upt_Suc)


subsection \<open>The live view as an interface\<close>

text \<open>
  What the portal relies on (the Go interface \<open>LiveTunnels\<close>): a user's tunnels are the active
  ones of that user, and asking for fewer recent requests gives the first of them.
\<close>

locale live_tunnels =
  fixes active_by_user :: "int \<Rightarrow> LiveTunnel list"
    and all_active :: "LiveTunnel list"
    and recent_requests :: "int \<Rightarrow> int \<Rightarrow> LiveRequest list"
  assumes own: "active_by_user u = filter (\<lambda>t. ltUserID t = u) all_active"
    and prefix: "m \<le> n \<Longrightarrow> recent_requests u m = take (nat m) (recent_requests u n)"
begin

lemma only_own: "t \<in> set (active_by_user u) \<longleftrightarrow> t \<in> set all_active \<and> ltUserID t = u"
  by (auto simp: own)

lemma bounded: "length (recent_requests u n) \<le> nat n"
  by (metis prefix order_refl length_take min.cobounded2)

lemma each_shown: "t \<in> set all_active \<Longrightarrow> t \<in> set (active_by_user (ltUserID t))"
  by (simp add: only_own)

end

interpretation host_live: live_tunnels "ActiveByUser h it" "AllActive h it" "RecentRequests h" for h it
  by unfold_locales (auto simp: ActiveByUser_filter RecentRequests_take min_def nat_le_eq_zle)

subsection \<open>Claiming a name\<close>

lemma assign_cases:
  assumes "assignSubdomain rng req h = (Inr name, h')"
  shows "\<not> name_live h name" "h' = claim name h"
  using assms
  by (auto simp: assignSubdomain_def Let_def pool_first_free_find random_name_find
      dest: pool_requested_SomeD find_SomeD split: if_splits option.splits)

lemma assign_error: "assignSubdomain rng req h = (Inl er, h') \<Longrightarrow> h' = h"
  by (auto simp: assignSubdomain_def Let_def split: if_splits option.splits)


text \<open>The generated names: a word and a number from 1 to 999.\<close>

lemma random_word_shape:
  "\<exists>w\<in>set fallbackWords. \<exists>n\<in>{1..999}. random_word rng a = w @ itoa n"
proof -
  have n: "rng (2 * a) mod length fallbackWords < length fallbackWords"
    by (rule mod_less_divisor) (simp add: fallbackWords_def)
  then have w: "fallbackWords ! (rng (2 * a) mod length fallbackWords) \<in> set fallbackWords" by simp
  have "rng (2 * a + 1) mod 999 < 999" by (rule mod_less_divisor) simp
  then have "int (rng (2 * a + 1) mod 999 + 1) \<in> {1..999}"
    unfolding atLeastAtMost_iff by linarith
  with w show ?thesis unfolding random_word_def randInt_def by blast
qed

subsection \<open>The invariant of the host\<close>

text \<open>
  A registered pointer is the entry of its own lowercased name; a channel that is pending is
  pending under one id and empty; no user has more than the capped number of recent requests.
\<close>

definition clients_ok :: "TunnelHost \<Rightarrow> bool" where
  "clients_ok h \<longleftrightarrow> (\<forall>k p. fmlookup (clients h) k = Some (Some p) \<longrightarrow>
     p < length (objs h) \<and> lower (ciName (objs h ! p)) = k)"

definition pending_ok :: "TunnelHost \<Rightarrow> bool" where
  "pending_ok h \<longleftrightarrow>
     (\<forall>cid ch. fmlookup (pending h) cid = Some ch \<longrightarrow> ch < length (chans h) \<and> chans h ! ch = None) \<and>
     (\<forall>cid cid' ch. fmlookup (pending h) cid = Some ch \<longrightarrow> fmlookup (pending h) cid' = Some ch \<longrightarrow> cid = cid')"

definition recent_ok :: "TunnelHost \<Rightarrow> bool" where
  "recent_ok h \<longleftrightarrow> (\<forall>uid b. fmlookup (recent h) uid = Some b \<longrightarrow> length b \<le> recentRequestCap)"

definition host_wf :: "TunnelHost \<Rightarrow> bool" where
  "host_wf h \<longleftrightarrow> db_wf (store h) \<and> clients_ok h \<and> pending_ok h \<and> recent_ok h"

lemmas host_ok_defs = clients_ok_def pending_ok_def recent_ok_def

lemma host_wf_new [simp]: "host_wf (NewTunnelHost cfg d) = db_wf d"
  by (simp add: host_wf_def host_ok_defs NewTunnelHost_def)

lemma clients_ok_frame [simp]:
  "clients_ok (h\<lparr>store := d\<rparr>) = clients_ok h" "clients_ok (h\<lparr>pending := m\<rparr>) = clients_ok h"
  "clients_ok (h\<lparr>chans := cs\<rparr>) = clients_ok h" "clients_ok (h\<lparr>recent := r\<rparr>) = clients_ok h"
  "clients_ok (h\<lparr>outbox := ob\<rparr>) = clients_ok h" "clients_ok (h\<lparr>closed := cl\<rparr>) = clients_ok h"
  by (simp_all add: clients_ok_def)

lemma pending_ok_frame [simp]:
  "pending_ok (h\<lparr>store := d\<rparr>) = pending_ok h" "pending_ok (h\<lparr>clients := c\<rparr>) = pending_ok h"
  "pending_ok (h\<lparr>objs := os\<rparr>) = pending_ok h" "pending_ok (h\<lparr>recent := r\<rparr>) = pending_ok h"
  "pending_ok (h\<lparr>outbox := ob\<rparr>) = pending_ok h" "pending_ok (h\<lparr>closed := cl\<rparr>) = pending_ok h"
  by (simp_all add: pending_ok_def)

lemma recent_ok_frame [simp]:
  "recent_ok (h\<lparr>store := d\<rparr>) = recent_ok h" "recent_ok (h\<lparr>clients := c\<rparr>) = recent_ok h"
  "recent_ok (h\<lparr>objs := os\<rparr>) = recent_ok h" "recent_ok (h\<lparr>pending := m\<rparr>) = recent_ok h"
  "recent_ok (h\<lparr>chans := cs\<rparr>) = recent_ok h"
  "recent_ok (h\<lparr>outbox := ob\<rparr>) = recent_ok h" "recent_ok (h\<lparr>closed := cl\<rparr>) = recent_ok h"
  by (simp_all add: recent_ok_def)

lemma clients_ok_objs:
  assumes "clients_ok h" "objs h' = (objs h)[p := c]" "ciName c = ciName (objs h ! p)"
    "clients h' = clients h"
  shows "clients_ok h'"
  using assms by (auto simp: clients_ok_def nth_update)

lemma clients_ok_drop: "clients_ok h \<Longrightarrow> clients_ok (h\<lparr>clients := fmdrop k (clients h)\<rparr>)"
  by (simp add: clients_ok_def)

lemma pending_ok_sub:
  assumes "pending_ok h" "\<And>c ch. fmlookup (pending h') c = Some ch \<Longrightarrow> fmlookup (pending h) c = Some ch"
    "chans h' = chans h"
  shows "pending_ok h'"
  using assms unfolding pending_ok_def by metis

lemma pending_ok_drop: "pending_ok h \<Longrightarrow> pending_ok (h\<lparr>pending := fmdrop k (pending h)\<rparr>)"
  by (rule pending_ok_sub) (auto split: if_splits)

lemma host_wf_claim: "host_wf h \<Longrightarrow> host_wf (claim name h)"
  by (auto simp: host_wf_def claim_def clients_ok_def)

lemma host_wf_assign: "host_wf h \<Longrightarrow> host_wf (snd (assignSubdomain rng req h))"
  by (cases "assignSubdomain rng req h"; cases "fst (assignSubdomain rng req h)")
    (auto dest: assign_error assign_cases(2) simp: host_wf_claim)

lemma host_wf_release: "host_wf h \<Longrightarrow> host_wf (releaseName name h)"
  by (simp add: host_wf_def releaseName_def clients_ok_drop split: option.split)

lemma host_wf_register: "host_wf h \<Longrightarrow> host_wf (snd (register n u c us name rm h))"
  by (fastforce simp: host_wf_def register_def clients_ok_def Let_def nth_append)

lemma host_wf_open_event: "host_wf h \<Longrightarrow> host_wf (open_event n p h)"
  using open_event.keeps [of "store h" n "ciUserID (objs h ! p)" "ciName (objs h ! p)" "ciRemoteAddr (objs h ! p)"]
  by (auto simp: host_wf_def open_event_def Let_def split: prod.splits sum.splits
      intro!: clients_ok_objs [where h = h and p = p])

lemma host_wf_greet: "host_wf h \<Longrightarrow> host_wf (greet b u p h)"
  by (auto simp: host_wf_def greet_def send_def Let_def)

lemma host_wf_take: "host_wf h \<Longrightarrow> host_wf (snd (take_pending cid h))"
  by (simp add: host_wf_def take_pending_def pending_ok_drop split: option.split)

lemma pending_ok_put:
  "pending_ok h \<Longrightarrow> (\<forall>cid. fmlookup (pending h) cid \<noteq> Some ch) \<Longrightarrow> pending_ok (put_chan ch x h)"
  by (auto simp: pending_ok_def put_chan_def nth_update)

lemma take_pending_chan:
  assumes "pending_ok h" "take_pending cid h = (Some ch, h')"
  shows "ch < length (chans h')" "chans h' ! ch = None" "\<forall>c. fmlookup (pending h') c \<noteq> Some ch"
    "fmlookup (pending h) cid = Some ch"
  using assms by (auto simp: take_pending_def pending_ok_def split: option.splits if_splits)

text \<open>Under the invariant the read loop never blocks on a channel, and keeps the invariant.\<close>

lemma pump_runs:
  assumes "host_wf h"
  obtains h' where "pump_message m h = Some h'" "host_wf h'"
proof (cases "decode_reply m")
  case None
  then show ?thesis using assms that by (simp add: pump_message_def)
next
  case (Some cr)
  obtain cid resp where cr: "cr = (cid, resp)" by fastforce
  obtain c h1 where t: "take_pending cid h = (c, h1)" by fastforce
  have w: "host_wf h1" using host_wf_take [OF assms, of cid] t by simp
  show ?thesis
  proof (cases c)
    case None
    then show ?thesis using Some cr t w that by (simp add: pump_message_def)
  next
    case (Some ch)
    have p: "pending_ok h" using assms by (simp add: host_wf_def)
    note tp = take_pending_chan [OF p t [unfolded Some]]
    have "host_wf (put_chan ch resp h1)"
      using w tp(3) pending_ok_put by (auto simp: host_wf_def put_chan_def)
    then show ?thesis
      using \<open>decode_reply m = Some cr\<close> cr t Some tp(2) that by (simp add: pump_message_def)
  qed
qed

lemma host_wf_unregister: "host_wf h \<Longrightarrow> host_wf (unregister p h)"
  by (simp add: host_wf_def unregister_def clients_ok_drop Let_def)

lemma unregister_frame [simp]:
  "objs (unregister p h) = objs h" "store (unregister p h) = store h" "pending (unregister p h) = pending h"
  "chans (unregister p h) = chans h" "recent (unregister p h) = recent h"
  by (simp_all add: unregister_def Let_def)

lemma host_wf_close: "host_wf h \<Longrightarrow> host_wf (close_client n p h)"
  using close_event.keeps by (simp add: close_client_def Let_def host_wf_def)

lemma host_wf_drop: "host_wf h \<Longrightarrow> host_wf (dropClient n p h)"
  by (simp add: dropClient_def host_wf_close host_wf_unregister)

lemma read_loop_runs:
  assumes "host_wf h"
  obtains h' where "read_loop ms h = Some h'" "host_wf h'"
  using assms
proof (induction ms arbitrary: h thesis)
  case (Cons m ms)
  obtain h1 where "pump_message m h = Some h1" "host_wf h1" using pump_runs Cons.prems(2) .
  then show ?case using Cons.IH [of h1] Cons.prems(1) by auto
qed simp

lemma host_wf_record: "host_wf h \<Longrightarrow> host_wf (recordRequest n u m pa st h)"
  by (auto simp: host_wf_def recordRequest_def recent_ok_def clients_ok_def pending_ok_def Let_def)

lemma host_wf_open_pending: "host_wf h \<Longrightarrow> host_wf (snd (open_pending cid h))"
  by (fastforce simp: host_wf_def open_pending_def pending_ok_def Let_def nth_append)

lemma host_wf_forget: "host_wf h \<Longrightarrow> host_wf (forget_pending cid h)"
  by (simp add: host_wf_def forget_pending_def pending_ok_drop)

lemma host_wf_send: "host_wf h \<Longrightarrow> host_wf (snd (send b c t cid data h))"
  by (auto simp: host_wf_def send_def Let_def)

lemma host_wf_begin: "host_wf h \<Longrightarrow> host_wf (snd (begin_request b cid req p h))"
  using host_wf_open_pending [of h cid]
  by (auto simp: begin_request_def host_wf_send host_wf_forget split: prod.splits bool.splits)
    (metis host_wf_send host_wf_forget snd_conv)+

lemma pending_ok_receive:
  assumes "pending_ok h" "chans h' = (chans h)[ch := None]" "pending h' = pending h"
  shows "pending_ok h'"
  using assms unfolding pending_ok_def by (simp add: nth_update)

definition received :: "nat \<Rightarrow> nat \<Rightarrow> TunnelHost \<Rightarrow> TunnelHost" where
  "received ch p h = h\<lparr>chans := (chans h)[ch := None],
     objs := (objs h)[p := (objs h ! p)\<lparr>ciRequests := ciRequests (objs h ! p) + 1\<rparr>]\<rparr>"

lemma received_frame [simp]:
  "store (received ch p h) = store h" "clients (received ch p h) = clients h"
  "pending (received ch p h) = pending h" "recent (received ch p h) = recent h"
  by (simp_all add: received_def)

lemma host_wf_received: "host_wf h \<Longrightarrow> host_wf (received ch p h)"
proof -
  assume h: "host_wf h"
  have "pending_ok (received ch p h)"
    by (rule pending_ok_receive [of h]) (use h in \<open>simp_all add: host_wf_def received_def\<close>)
  moreover have "clients_ok (received ch p h)"
    by (rule clients_ok_objs [of h _ p "(objs h ! p)\<lparr>ciRequests := ciRequests (objs h ! p) + 1\<rparr>"])
      (use h in \<open>simp_all add: host_wf_def received_def\<close>)
  ultimately show ?thesis using h by (simp add: host_wf_def recent_ok_def)
qed

lemma finish_request_cases:
  obtains (reply) resp where "wk = Reply" "chans h ! ch = Some resp"
      "finish_request n wk cid ch req p h = (Inr resp, recordRequest n (ciUserID (objs h ! p))
        (rqMethod req) (rqPath req) (rsStatusCode resp) (received ch p h))"
  | (error) er where "finish_request n wk cid ch req p h = (Inl er, forget_pending cid h)"
  by (cases wk; cases "chans h ! ch")
    (auto simp: finish_request_def received_def Let_def)

lemma host_wf_finish: "host_wf h \<Longrightarrow> host_wf (snd (finish_request n wk cid ch req p h))"
  by (rule finish_request_cases [of wk h ch n cid req p])
    (simp_all add: host_wf_record host_wf_forget host_wf_received)

subsection \<open>A whole connection\<close>

lemma host_wf_authenticate:
  assumes "host_wf h" "authenticate e r w h = (x, h')"
  shows "host_wf h'" "clients h' = clients h" "objs h' = objs h" "pending h' = pending h"
proof -
  have "db_wf (snd (ResolveToken e (store h) (BearerToken r)))"
    using assms(1) ResolveToken_keeps by (simp add: host_wf_def)
  then show "host_wf h'" "clients h' = clients h" "objs h' = objs h" "pending h' = pending h"
    using assms by (auto simp: authenticate_def host_wf_def Let_def split: if_splits prod.splits sum.splits)
qed

lemma pump_frame:
  assumes "pump_message m h = Some h'"
  shows "clients h' = clients h" "objs h' = objs h"
  using assms by (auto simp: pump_message_def take_pending_def put_chan_def
      split: option.splits prod.splits if_splits)

lemma read_loop_frame:
  "read_loop ms h = Some h' \<Longrightarrow> clients h' = clients h \<and> objs h' = objs h"
  by (induction ms arbitrary: h) (auto dest: pump_frame split: option.splits)

lemma open_event_names:
  "clients (open_event n p h) = clients h" "length (objs (open_event n p h)) = length (objs h)"
  "ciName (objs (open_event n p h) ! q) = ciName (objs h ! q)"
  by (auto simp: open_event_def Let_def nth_update split: prod.split sum.split)

lemma greet_names: "clients (greet b u p h) = clients h" "objs (greet b u p h) = objs h"
  by (simp_all add: greet_def send_def Let_def)

lemma close_names: "clients (close_client n p h) = clients h" "objs (close_client n p h) = objs h"
  by (simp_all add: close_client_def Let_def)

lemma fmdrop_upd_fresh: "fmlookup m k = None \<Longrightarrow> fmdrop k (fmupd k v m) = m"
  by (rule fmap_ext) auto

lemma register_serve_drop:
  assumes "host_wf h" "\<not> name_live h name"
  obtains h' where
    "readPump n (length (objs h)) ms (greet b u2 (length (objs h))
       (open_event n (length (objs h)) (snd (register n u c us name rm (claim name h))))) = Some h'"
    "host_wf h'" "clients h' = clients h"
proof -
  let ?p = "length (objs h)"
  let ?h1 = "snd (register n u c us name rm (claim name h))"
  let ?h3 = "greet b u2 ?p (open_event n ?p ?h1)"
  have "host_wf ?h3"
    by (intro host_wf_greet host_wf_open_event host_wf_register host_wf_claim assms)
  then obtain h4 where h4: "read_loop ms ?h3 = Some h4" "host_wf h4" by (rule read_loop_runs)
  note fr = read_loop_frame [OF h4(1)]
  have nm: "ciName (objs h4 ! ?p) = name"
    using fr by (simp add: greet_names open_event_names register_def claim_def Let_def)
  have cl: "clients h4 = fmupd (lower name) (Some ?p) (clients h)"
    using fr by (simp add: greet_names open_event_names register_def claim_def Let_def)
  have "clients (dropClient n ?p h4) = clients h"
    using assms(2)
    by (simp add: dropClient_def close_names unregister_def Let_def nm cl fmdrop_upd_fresh name_live_def)
  then show thesis using h4 that host_wf_drop by (simp add: readPump_def)
qed

lemma release_claim: "\<not> name_live h name \<Longrightarrow> clients (releaseName name (claim name h)) = clients h"
  by (simp add: releaseName_def claim_def fmdrop_upd_fresh name_live_def)

subsection \<open>Properties\<close>

lemma handleConn_runs:
  assumes "host_wf h"
  shows "\<exists>w' h'. handleConn e i r w h = Some (w', h') \<and> host_wf h' \<and> clients h' = clients h"
proof -
  obtain x h1 where a: "authenticate e r w h = (x, h1)" by fastforce
  note h1 = host_wf_authenticate [OF assms a]
  obtain y h2 where b: "assignSubdomain (inRng i) (header_get (rHeader r) SubdomainHeader) h1 = (y, h2)" by fastforce
  show ?thesis
  proof (cases x)
    case (Inl w1)
    then show ?thesis using a h1 by (simp add: handleConn_def)
  next
    case (Inr user)
    show ?thesis
    proof (cases y)
      case (Inl err)
      then show ?thesis using a b \<open>x = Inr user\<close> h1 assign_error [OF b [unfolded Inl]] by (simp add: handleConn_def)
    next
      case (Inr name)
      note asg = assign_cases [OF b [unfolded Inr]]
      show ?thesis
      proof (cases "inAccept i")
        case None
        then show ?thesis
          using a b \<open>x = Inr user\<close> Inr h1 asg release_claim [of h1 name]
          by (simp add: handleConn_def host_wf_release host_wf_claim)
      next
        case (Some conn)
        obtain h' where "readPump (now e) (length (objs h1)) (inMessages i)
            (greet (inGreeted i) (inInfoId i) (length (objs h1)) (open_event (now e) (length (objs h1))
              (snd (register (now e) (inId i) conn user name (rRemoteAddr r) (claim name h1))))) = Some h'"
          "host_wf h'" "clients h' = clients h1"
          by (rule register_serve_drop [OF h1(1) asg(1)])
        moreover have "fst (register (now e) (inId i) conn user name (rRemoteAddr r) (claim name h1)) = length (objs h1)"
          by (simp add: register_def claim_def Let_def)
        ultimately show ?thesis
          using a b \<open>x = Inr user\<close> Inr Some h1(2) asg(2)
          by (auto simp: handleConn_def split: prod.split)
      qed
    qed
  qed
qed

text \<open>
  C14. A connection handler always returns: the read loop never blocks on a waiting request, and
  whatever the client sends, whether it is refused, rejected or served until it leaves, the map of
  clients is afterwards what it was before and the host's invariant holds.
\<close>

theorem handleConn_returns:
  assumes "host_wf h"
  shows "\<exists>w' h'. handleConn e i r w h = Some (w', h') \<and> host_wf h' \<and> clients h' = clients h"
  using assms by (rule handleConn_runs)

text \<open>
  C15. Without a token that resolves to a user the handler answers 401, and neither the clients nor
  the objects, the pending requests or the outbox change.
\<close>

theorem unauthenticated_rejected:
  assumes "BearerToken r = [] \<or> fst (ResolveToken e (store h) (BearerToken r)) = Inl er"
  shows "\<exists>w' d. handleConn e i r new_writer h = Some (w', h\<lparr>store := d\<rparr>) \<and> sent_status w' = Some 401"
proof -
  have "\<exists>w' d. authenticate e r new_writer h = (Inl w', h\<lparr>store := d\<rparr>) \<and> sent_status w' = Some 401"
  proof (cases "BearerToken r = []")
    case True
    then have "authenticate e r new_writer h =
        (Inl (Error ''missing bearer token'' StatusUnauthorized new_writer), h\<lparr>store := store h\<rparr>)"
      by (simp add: authenticate_def)
    then show ?thesis by (metis Error_status new_writer_fresh StatusUnauthorized_def unauthorized_range)
  next
    case False
    obtain d where "ResolveToken e (store h) (BearerToken r) = (Inl er, d)"
      using assms False by (metis prod.collapse)
    then have "authenticate e r new_writer h =
        (Inl (Error ''invalid token'' StatusUnauthorized new_writer), h\<lparr>store := d\<rparr>)"
      using False by (simp add: authenticate_def)
    then show ?thesis by (metis Error_status new_writer_fresh StatusUnauthorized_def unauthorized_range)
  qed
  then show ?thesis by (auto simp: handleConn_def)
qed


text \<open>
  The loop that returns a user's recent requests is the reference one: the stored ones newest
  first, at most \<open>limit\<close>; and right after a request is recorded it comes first.
\<close>

lemma recent_requests_spec:
  "RecentRequests h uid limit =
     take (nat limit) (rev (case fmlookup (recent h) uid of None \<Rightarrow> [] | Some b \<Rightarrow> b)) \<and>
   RecentRequests (recordRequest clock uid m p st h) uid 1 =
     [\<lparr>lrTime = clock, lrMethod = m, lrPath = p, lrStatus = st\<rparr>]"
  by (auto simp: RecentRequests_take recordRequest_def Let_def recentRequestCap_def)

subsection \<open>Concrete cases\<close>

definition pool_cfg :: TunnelHostSettings where
  "pool_cfg = \<lparr>thHostName = [], thPort = 8001,
     thClientDomain = \<lparr>cdDomain = ''t.io'', cdSubDomains = [''One'', ''two'']\<rparr>, thSsl = None\<rparr>"

definition plain_request :: Request where
  "plain_request = \<lparr>rMethod = ''GET'', rHost = ''t.io'', rURI = ''/'', rHeader = fmempty,
     rBody = Some [], rForm = fmempty, rRemoteAddr = ''1.2.3.4:5'', rPathID = []\<rparr>"

lemma handleConn_returns_witness:
  "\<exists>w' h'. handleConn sample_env \<lparr>inRng = (\<lambda>k. k), inAccept = Some 3, inId = ''c'', inInfoId = ''i'',
      inGreeted = True, inMessages = [''junk'']\<rparr> plain_request new_writer (NewTunnelHost pool_cfg sample_db)
      = Some (w', h') \<and> host_wf h' \<and> clients h' = clients (NewTunnelHost pool_cfg sample_db)"
  by (rule handleConn_returns) (simp add: sample_db_wf)

lemma unauthenticated_rejected_witness:
  "\<exists>w' d. handleConn sample_env \<lparr>inRng = (\<lambda>k. k), inAccept = Some 3, inId = ''c'', inInfoId = ''i'',
      inGreeted = True, inMessages = []\<rparr> plain_request new_writer (NewTunnelHost pool_cfg sample_db)
      = Some (w', (NewTunnelHost pool_cfg sample_db)\<lparr>store := d\<rparr>) \<and> sent_status w' = Some 401"
proof -
  have "BearerToken plain_request = []" by code_simp
  then show ?thesis by (intro unauthenticated_rejected) simp
qed


end
