(* ===== verification/TunnelSteps.thy ===== *)
theory TunnelSteps
  imports TunnelHost
begin

text \<open>
  The host as a concurrent system (\<open>internal/host/tunnel.go\<close>). Every connection and every
  forwarded request runs in a goroutine of its own; a step is what one of them does between two
  points where another can run: one acquisition of the mutex, one channel operation, one call of
  the store or of the WebSocket library. The goroutines are kept by number, with the point they
  have reached.
\<close>

subsection \<open>Goroutines\<close>

text \<open>
  \<open>handleConn\<close>: authenticated with the name it asks for; named, holding a placeholder;
  registered as a client; with its history event opened; reading; with a reply taken from a
  message for a channel, about to send it; unregistered.
\<close>

datatype conn_phase =
    Authed User string string
  | Named string User string
  | Registered nat
  | Evented nat
  | Reading nat
  | Delivering nat string nat HttpResponseData
  | Unregistered nat

text \<open>
  \<open>SendHttpRequest\<close>: registered as pending, with the client and its channel; waiting in the \<open>select\<close>; out of the wait
  with an error, about to delete its entry; with the reply, about to record it; returned.
\<close>

datatype call_phase =
    Opened HttpRequestData nat nat
  | Waiting HttpRequestData nat nat
  | Failing send_error
  | Received HttpRequestData nat HttpResponseData
  | Returned "send_error + HttpResponseData"

record System =
  host :: TunnelHost
  conns :: "(nat, conn_phase) gomap"
  calls :: "(nat, call_phase) gomap"
  ncalls :: nat
  replies :: "(string \<times> HttpResponseData) list"

text \<open>
  \<open>replies\<close> lists the replies taken out of messages, with the conversation they name. The
  number of a call chooses its conversation id: \<open>uuid n\<close> is what \<open>uuid.NewString\<close>
  returns at the call numbered \<open>n\<close>.
\<close>

abbreviation conn_to :: "nat \<Rightarrow> conn_phase \<Rightarrow> TunnelHost \<Rightarrow> System \<Rightarrow> System" where
  "conn_to t ph h s \<equiv> s\<lparr>host := h, conns := fmupd t ph (conns s)\<rparr>"

abbreviation conn_end :: "nat \<Rightarrow> TunnelHost \<Rightarrow> System \<Rightarrow> System" where
  "conn_end t h s \<equiv> s\<lparr>host := h, conns := fmdrop t (conns s)\<rparr>"

abbreviation call_to :: "nat \<Rightarrow> call_phase \<Rightarrow> TunnelHost \<Rightarrow> System \<Rightarrow> System" where
  "call_to n ph h s \<equiv> s\<lparr>host := h, calls := fmupd n ph (calls s)\<rparr>"

subsection \<open>Steps\<close>

inductive step :: "(nat \<Rightarrow> string) \<Rightarrow> System \<Rightarrow> System \<Rightarrow> bool" for uuid :: "nat \<Rightarrow> string" where
  store_use: "step uuid s (s\<lparr>host := (host s)\<lparr>store := store_step c (store (host s))\<rparr>\<rparr>)"
| conn_auth: "fmlookup (conns s) t = None \<Longrightarrow> authenticate e r w (host s) = (Inr user, h) \<Longrightarrow>
    step uuid s (conn_to t (Authed user (header_get (rHeader r) SubdomainHeader) (rRemoteAddr r)) h s)"
| conn_claim: "fmlookup (conns s) t = Some (Authed user req remote) \<Longrightarrow>
    assignSubdomain rng req (host s) = (Inr name, h) \<Longrightarrow>
    step uuid s (conn_to t (Named name user remote) h s)"
| conn_refused: "fmlookup (conns s) t = Some (Authed user req remote) \<Longrightarrow>
    assignSubdomain rng req (host s) = (Inl err, h) \<Longrightarrow> step uuid s (conn_end t h s)"
| conn_rejected: "fmlookup (conns s) t = Some (Named name user remote) \<Longrightarrow>
    step uuid s (conn_end t (releaseName name (host s)) s)"
| conn_register: "fmlookup (conns s) t = Some (Named name user remote) \<Longrightarrow>
    register clock cid conn user name remote (host s) = (p, h) \<Longrightarrow>
    step uuid s (conn_to t (Registered p) h s)"
| conn_event: "fmlookup (conns s) t = Some (Registered p) \<Longrightarrow>
    step uuid s (conn_to t (Evented p) (open_event clock p (host s)) s)"
| conn_greet: "fmlookup (conns s) t = Some (Evented p) \<Longrightarrow>
    step uuid s (conn_to t (Reading p) (greet written iid p (host s)) s)"
| conn_take: "fmlookup (conns s) t = Some (Reading p) \<Longrightarrow> decode_reply m = Some (cid, resp) \<Longrightarrow>
    take_pending cid (host s) = (Some ch, h) \<Longrightarrow>
    step uuid s ((conn_to t (Delivering p cid ch resp) h s)\<lparr>replies := replies s @ [(cid, resp)]\<rparr>)"
| conn_put: "fmlookup (conns s) t = Some (Delivering p cid ch resp) \<Longrightarrow> chans (host s) ! ch = None \<Longrightarrow>
    step uuid s (conn_to t (Reading p) (put_chan ch resp (host s)) s)"
| conn_lost: "fmlookup (conns s) t = Some (Reading p) \<Longrightarrow>
    step uuid s (conn_to t (Unregistered p) (unregister p (host s)) s)"
| conn_close: "fmlookup (conns s) t = Some (Unregistered p) \<Longrightarrow>
    step uuid s (conn_end t (close_client clock p (host s)) s)"
| call_open: "p < length (objs (host s)) \<Longrightarrow> open_pending (uuid (ncalls s)) (host s) = (ch, h) \<Longrightarrow>
    step uuid s ((call_to (ncalls s) (Opened req p ch) h s)\<lparr>ncalls := Suc (ncalls s)\<rparr>)"
| call_send: "fmlookup (calls s) n = Some (Opened req p ch) \<Longrightarrow>
    send True (ciConn (objs (host s) ! p)) CmdHttpRequest (uuid n) (marshal_request req) (host s) = (ok, h) \<Longrightarrow>
    step uuid s (call_to n (Waiting req p ch) h s)"
| call_unsent: "fmlookup (calls s) n = Some (Opened req p ch) \<Longrightarrow>
    step uuid s (call_to n (Failing WriteFailed) (host s) s)"
| call_timer: "fmlookup (calls s) n = Some (Waiting req p ch) \<Longrightarrow>
    step uuid s (call_to n (Failing TimedOut) (host s) s)"
| call_done: "fmlookup (calls s) n = Some (Waiting req p ch) \<Longrightarrow>
    step uuid s (call_to n (Failing Cancelled) (host s) s)"
| call_forget: "fmlookup (calls s) n = Some (Failing er) \<Longrightarrow>
    step uuid s (call_to n (Returned (Inl er)) (forget_pending (uuid n) (host s)) s)"
| call_receive: "fmlookup (calls s) n = Some (Waiting req p ch) \<Longrightarrow> chans (host s) ! ch = Some resp \<Longrightarrow>
    step uuid s (call_to n (Received req p resp) (received ch p (host s)) s)"
| call_record: "fmlookup (calls s) n = Some (Received req p resp) \<Longrightarrow>
    step uuid s (call_to n (Returned (Inr resp))
      (recordRequest clock (ciUserID (objs (host s) ! p)) (rqMethod req) (rqPath req) (rsStatusCode resp) (host s)) s)"

definition system_init :: "TunnelHostSettings \<Rightarrow> db \<Rightarrow> System \<Rightarrow> bool" where
  "system_init cfg d s \<longleftrightarrow> s = \<lparr>host = NewTunnelHost cfg d, conns = fmempty, calls = fmempty,
     ncalls = 0, replies = []\<rparr>"


inductive_cases step_cases: "step uuid s s'"

subsection \<open>Names\<close>

text \<open>The entry of the client map a connection stands for.\<close>

fun holds :: "TunnelHost \<Rightarrow> conn_phase \<Rightarrow> (string \<times> nat option) option" where
  "holds h (Named name user remote) = Some (lower name, None)"
| "holds h (Registered p) = Some (lower (ciName (objs h ! p)), Some p)"
| "holds h (Evented p) = Some (lower (ciName (objs h ! p)), Some p)"
| "holds h (Reading p) = Some (lower (ciName (objs h ! p)), Some p)"
| "holds h (Delivering p cid ch resp) = Some (lower (ciName (objs h ! p)), Some p)"
| "holds h (Authed user req remote) = None"
| "holds h (Unregistered p) = None"

fun pointers :: "conn_phase \<Rightarrow> nat set" where
  "pointers (Registered p) = {p}" | "pointers (Evented p) = {p}" | "pointers (Reading p) = {p}"
| "pointers (Delivering p cid ch resp) = {p}" | "pointers (Unregistered p) = {p}"
| "pointers (Named name user remote) = {}" | "pointers (Authed user req remote) = {}"

definition held :: "TunnelHost \<Rightarrow> (nat, conn_phase) gomap \<Rightarrow> nat \<Rightarrow> (string \<times> nat option) option" where
  "held h cs t = (case fmlookup cs t of None \<Rightarrow> None | Some ph \<Rightarrow> holds h ph)"

text \<open>The client map is exactly what the connections hold, each name held by one of them.\<close>

definition matches :: "(string \<Rightarrow> nat option option) \<Rightarrow> (nat \<Rightarrow> (string \<times> nat option) option) \<Rightarrow> bool" where
  "matches C G \<longleftrightarrow> (\<forall>k v. C k = Some v \<longleftrightarrow> (\<exists>t. G t = Some (k, v))) \<and>
     (\<forall>t t' k v v'. G t = Some (k, v) \<longrightarrow> G t' = Some (k, v') \<longrightarrow> t = t')"

definition pointers_ok :: "TunnelHost \<Rightarrow> (nat, conn_phase) gomap \<Rightarrow> bool" where
  "pointers_ok h cs \<longleftrightarrow> (\<forall>t ph p. fmlookup cs t = Some ph \<longrightarrow> p \<in> pointers ph \<longrightarrow> p < length (objs h))"

definition names_ok :: "TunnelHost \<Rightarrow> (nat, conn_phase) gomap \<Rightarrow> bool" where
  "names_ok h cs \<longleftrightarrow> matches (fmlookup (clients h)) (held h cs) \<and> pointers_ok h cs"

lemma matches_claim: "matches C G \<Longrightarrow> C k = None \<Longrightarrow> G t = None \<Longrightarrow> matches (C(k \<mapsto> v)) (G(t \<mapsto> (k, v)))"
  unfolding matches_def by (simp, safe) (metis option.distinct(1) option.inject prod.inject)+

lemma matches_change: "matches C G \<Longrightarrow> G t = Some (k, v) \<Longrightarrow> matches (C(k \<mapsto> v')) (G(t \<mapsto> (k, v')))"
  unfolding matches_def by (simp, safe) (metis option.distinct(1) option.inject prod.inject)+

lemma matches_release: "matches C G \<Longrightarrow> G t = Some (k, v) \<Longrightarrow> matches (C(k := None)) (G(t := None))"
  unfolding matches_def by (simp, safe) (metis option.distinct(1) option.inject prod.inject)+

lemma fmdrop_lookup_upd: "fmlookup (fmdrop k m) = (fmlookup m)(k := None)"
  by auto

lemma fmupd_lookup_upd: "fmlookup (fmupd k v m) = (fmlookup m)(k \<mapsto> v)"
  by auto

lemma matches_same: "matches C G \<Longrightarrow> G t = g \<Longrightarrow> matches C (G(t := g))"
  by (simp add: fun_upd_idem)

definition names_kept :: "TunnelHost \<Rightarrow> TunnelHost \<Rightarrow> bool" where
  "names_kept h h' \<longleftrightarrow> length (objs h) \<le> length (objs h') \<and>
     (\<forall>p<length (objs h). ciName (objs h' ! p) = ciName (objs h ! p))"

lemma names_kept_same: "objs h' = objs h \<Longrightarrow> names_kept h h'"
  by (simp add: names_kept_def)

lemma names_kept_update:
  "objs h' = (objs h)[p := c] \<Longrightarrow> ciName c = ciName (objs h ! p) \<Longrightarrow> names_kept h h'"
  by (auto simp: names_kept_def nth_update)

lemma holds_kept: "names_kept h h' \<Longrightarrow> \<forall>p\<in>pointers ph. p < length (objs h) \<Longrightarrow> holds h' ph = holds h ph"
  by (cases ph) (auto simp: names_kept_def)

lemma held_upd:
  assumes "pointers_ok h cs" "names_kept h h'"
  shows "held h' (fmupd t ph cs) = (held h cs)(t := holds h' ph)"
proof
  fix t'
  show "held h' (fmupd t ph cs) t' = ((held h cs)(t := holds h' ph)) t'"
    using assms holds_kept [OF assms(2)] by (auto simp: held_def pointers_ok_def split: option.split)
qed

lemma held_drop:
  assumes "pointers_ok h cs" "names_kept h h'"
  shows "held h' (fmdrop t cs) = (held h cs)(t := None)"
proof
  fix t'
  show "held h' (fmdrop t cs) t' = ((held h cs)(t := None)) t'"
    using assms holds_kept [OF assms(2)] by (auto simp: held_def pointers_ok_def split: option.split)
qed

lemma names_ok_upd:
  assumes "names_ok h cs" "names_kept h h'" "\<forall>p\<in>pointers ph. p < length (objs h')"
    "matches (fmlookup (clients h')) ((held h cs)(t := holds h' ph))"
  shows "names_ok h' (fmupd t ph cs)"
  using assms held_upd [of h cs h' t ph]
  by (fastforce simp: names_ok_def pointers_ok_def names_kept_def split: if_splits)

lemma names_ok_drop:
  assumes "names_ok h cs" "names_kept h h'"
    "matches (fmlookup (clients h')) ((held h cs)(t := None))"
  shows "names_ok h' (fmdrop t cs)"
  using assms held_drop [of h cs h' t]
  by (fastforce simp: names_ok_def pointers_ok_def names_kept_def split: if_splits)

lemma names_ok_keep:
  assumes "names_ok h cs" "names_kept h h'" "clients h' = clients h"
  shows "names_ok h' cs"
proof -
  have "held h' cs = held h cs"
    using assms(1) holds_kept [OF assms(2)]
    by (auto simp: held_def names_ok_def pointers_ok_def split: option.split)
  then show ?thesis
    using assms by (fastforce simp: names_ok_def pointers_ok_def names_kept_def)
qed

text \<open>A step of a connection that holds what it held.\<close>

lemma names_ok_move:
  assumes "names_ok h cs" "fmlookup cs t = Some ph" "names_kept h h'" "clients h' = clients h"
    "holds h' ph' = holds h ph" "pointers ph' \<subseteq> pointers ph"
  shows "names_ok h' (fmupd t ph' cs)"
proof (rule names_ok_upd [OF assms(1,3)])
  show "\<forall>p\<in>pointers ph'. p < length (objs h')"
    using assms by (fastforce simp: names_ok_def pointers_ok_def names_kept_def)
  show "matches (fmlookup (clients h')) ((held h cs)(t := holds h' ph'))"
    using assms by (simp add: names_ok_def held_def matches_same)
qed

subsection \<open>What the operations do to names\<close>

lemma authenticate_frame:
  "authenticate e r w h = (x, h') \<Longrightarrow> objs h' = objs h \<and> clients h' = clients h"
  by (auto simp: authenticate_def Let_def split: if_splits prod.splits sum.splits)

lemma claim_frame [simp]: "objs (claim n h) = objs h" "clients (claim n h) = fmupd (lower n) None (clients h)"
  by (simp_all add: claim_def)

lemma open_event_frame:
  "clients (open_event n p h) = clients h \<and> names_kept h (open_event n p h)"
proof -
  obtain x d where "OpenTunnelEvent n (store h) (ciUserID (objs h ! p)) (ciName (objs h ! p))
    (ciRemoteAddr (objs h ! p)) = (x, d)" by fastforce
  then show ?thesis
    by (cases x) (auto simp: open_event_def Let_def intro: names_kept_same names_kept_update)
qed

lemma greet_frame [simp]: "objs (greet b i p h) = objs h" "clients (greet b i p h) = clients h"
  by (simp_all add: greet_def send_def Let_def)

lemma take_frame: "take_pending cid h = (x, h') \<Longrightarrow> objs h' = objs h \<and> clients h' = clients h"
  by (auto simp: take_pending_def split: option.splits)

lemma put_chan_frame [simp]: "objs (put_chan c x h) = objs h" "clients (put_chan c x h) = clients h"
  by (simp_all add: put_chan_def)

lemma close_client_frame [simp]:
  "objs (close_client n p h) = objs h" "clients (close_client n p h) = clients h"
  by (simp_all add: close_client_def Let_def)

lemma open_pending_frame: "open_pending cid h = (c, h') \<Longrightarrow> objs h' = objs h \<and> clients h' = clients h"
  by (auto simp: open_pending_def Let_def)

lemma send_frame: "send b c t cid x h = (ok, h') \<Longrightarrow> objs h' = objs h \<and> clients h' = clients h"
  by (auto simp: send_def Let_def split: if_splits)

lemma forget_frame [simp]: "objs (forget_pending c h) = objs h" "clients (forget_pending c h) = clients h"
  by (simp_all add: forget_pending_def)

lemma record_frame [simp]:
  "objs (recordRequest n u m p st h) = objs h" "clients (recordRequest n u m p st h) = clients h"
  by (simp_all add: recordRequest_def Let_def)

lemma received_names: "names_kept h (received c p h)"
  by (rule names_kept_update [where p = p and c = "(objs h ! p)\<lparr>ciRequests := ciRequests (objs h ! p) + 1\<rparr>"])
    (simp_all add: received_def)

lemma names_step: "step uuid s s' \<Longrightarrow> names_ok (host s) (conns s) \<Longrightarrow> names_ok (host s') (conns s')"
proof (induction rule: step.induct)
  case (store_use s c)
  then show ?case by (simp add: names_ok_keep names_kept_same)
next
  case (conn_auth s t e r w user h)
  then show ?case
    using authenticate_frame [OF conn_auth(2)]
    by (simp, intro names_ok_upd [of "host s"])
      (simp_all add: names_kept_same names_ok_def matches_same held_def)
next
  case (conn_claim s t user req remote rng name h)
  from conn_claim(2) have a: "\<not> name_live (host s) name" "h = claim name (host s)"
    by (rule assign_cases)+
  show ?case
    using conn_claim(1,3) a unfolding a(2)
    by (simp, intro names_ok_upd [of "host s"])
      (simp_all add: names_kept_same names_ok_def matches_claim held_def name_live_def fmupd_lookup_upd)
next
  case (conn_refused s t user req remote rng err h)
  then show ?case
    using assign_error [OF conn_refused(2)]
    by (simp, intro names_ok_drop [of "host s"])
      (simp_all add: names_kept_same names_ok_def matches_same held_def)
next
  case (conn_rejected s t name user remote)
  have m: "matches (fmlookup (clients (host s))) (held (host s) (conns s))" "held (host s) (conns s) t = Some (lower name, None)"
    using conn_rejected by (simp_all add: names_ok_def held_def)
  then have "fmlookup (clients (host s)) (lower name) = Some None" unfolding matches_def by blast
  then have "releaseName name (host s) = (host s)\<lparr>clients := fmdrop (lower name) (clients (host s))\<rparr>"
    by (simp add: releaseName_def)
  then show ?case
    using conn_rejected(2) matches_release [OF m]
    by (simp, intro names_ok_drop [of "host s"]) (simp_all add: names_kept_same fmdrop_lookup_upd)
next
  case (conn_register s t name user remote clock cid conn p h)
  have m: "matches (fmlookup (clients (host s))) (held (host s) (conns s))" "held (host s) (conns s) t = Some (lower name, None)"
    using conn_register by (simp_all add: names_ok_def held_def)
  then show ?case
    using conn_register(2,3) matches_change [OF m, of "Some p"]
    by (simp, intro names_ok_upd [of "host s"])
      (auto simp: register_def Let_def names_kept_def nth_append fmupd_lookup_upd)
next
  case (conn_event s t p clock)
  then show ?case
    using open_event_frame [of clock p "host s"] by (simp, intro names_ok_move) (auto simp: names_ok_def pointers_ok_def names_kept_def)
next
  case (conn_greet s t p written iid)
  then show ?case by (simp, intro names_ok_move [of "host s"]) (auto intro: names_kept_same)
next
  case (conn_take s t p m cid resp ch h)
  then show ?case
    by (simp, intro names_ok_move [of "host s"]) (auto dest: take_frame intro: names_kept_same)
next
  case (conn_put s t p cid ch resp)
  then show ?case by (simp, intro names_ok_move [of "host s"]) (auto intro: names_kept_same)
next
  case (conn_lost s t p)
  have m: "matches (fmlookup (clients (host s))) (held (host s) (conns s))"
    "held (host s) (conns s) t = Some (lower (ciName (objs (host s) ! p)), Some p)" "p < length (objs (host s))"
    using conn_lost by (auto simp: names_ok_def held_def pointers_ok_def)
  then have "fmlookup (clients (host s)) (lower (ciName (objs (host s) ! p))) = Some (Some p)"
    unfolding matches_def by blast
  then have "unregister p (host s) = (host s)\<lparr>clients := fmdrop (lower (ciName (objs (host s) ! p))) (clients (host s))\<rparr>"
    by (simp add: unregister_def Let_def)
  then show ?case
    using conn_lost(2) m(3) matches_release [OF m(1,2)]
    by (simp, intro names_ok_upd [of "host s"]) (simp_all add: names_kept_same fmdrop_lookup_upd)
next
  case (conn_close s t p clock)
  then show ?case
    by (simp, intro names_ok_drop [of "host s"])
      (simp_all add: names_kept_same names_ok_def matches_same held_def)
next
  case (call_open p s ch h req)
  then show ?case by (auto dest!: open_pending_frame intro: names_ok_keep names_kept_same)
next
  case (call_send s n req p ch ok h)
  then show ?case by (auto dest!: send_frame intro: names_ok_keep names_kept_same)
next
  case (call_receive s n req p ch resp)
  then show ?case by (auto intro: names_ok_keep received_names)
qed (auto elim!: names_ok_keep simp: names_kept_same)

subsection \<open>Conversations\<close>

fun delivery :: "conn_phase \<Rightarrow> (string \<times> nat \<times> HttpResponseData) option" where
  "delivery (Delivering p cid ch resp) = Some (cid, ch, resp)"
| "delivery _ = None"

definition delivering :: "(nat, conn_phase) gomap \<Rightarrow> nat \<Rightarrow> (string \<times> nat \<times> HttpResponseData) option" where
  "delivering cs t = Option.bind (fmlookup cs t) delivery"

fun call_chan :: "call_phase \<Rightarrow> nat option" where
  "call_chan (Opened req p ch) = Some ch" | "call_chan (Waiting req p ch) = Some ch"
| "call_chan _ = None"

fun call_live :: "call_phase \<Rightarrow> bool" where
  "call_live (Opened req p ch) = True" | "call_live (Waiting req p ch) = True"
| "call_live (Failing er) = True" | "call_live _ = False"

fun call_reply :: "call_phase \<Rightarrow> HttpResponseData option" where
  "call_reply (Received req p resp) = Some resp"
| "call_reply (Returned (Inr resp)) = Some resp"
| "call_reply _ = None"

text \<open>
  \<open>P\<close> is the map of pending ids, \<open>C\<close> the channels, \<open>D\<close> the deliveries under way,
  \<open>K\<close> the calls, \<open>N\<close> their number and \<open>R\<close> the replies read so far. The channel of
  call \<open>n\<close> is the \<open>n\<close>-th. A pending entry belongs to a call that has not returned. A
  reply is in at most one place: taken by one connection, or in the channel, or with the call.
\<close>

definition pending_inv :: "(nat \<Rightarrow> string) \<Rightarrow> (string \<Rightarrow> nat option) \<Rightarrow> HttpResponseData option list \<Rightarrow>
    (nat \<Rightarrow> call_phase option) \<Rightarrow> nat \<Rightarrow> bool" where
  "pending_inv uuid P C K N \<longleftrightarrow> length C = N \<and>
     (\<forall>n ph. K n = Some ph \<longrightarrow> n < N \<and> (\<forall>ch. call_chan ph = Some ch \<longrightarrow> ch = n)) \<and>
     (\<forall>cid ch. P cid = Some ch \<longrightarrow> ch < N \<and> cid = uuid ch \<and> C ! ch = None \<and>
        (\<exists>ph. K ch = Some ph \<and> call_live ph))"

definition deliver_inv :: "(nat \<Rightarrow> string) \<Rightarrow> (string \<Rightarrow> nat option) \<Rightarrow> HttpResponseData option list \<Rightarrow>
    (nat \<Rightarrow> (string \<times> nat \<times> HttpResponseData) option) \<Rightarrow> nat \<Rightarrow>
    (string \<times> HttpResponseData) set \<Rightarrow> bool" where
  "deliver_inv uuid P C D N R \<longleftrightarrow>
     (\<forall>t cid ch resp. D t = Some (cid, ch, resp) \<longrightarrow> ch < N \<and> cid = uuid ch \<and> C ! ch = None \<and>
        P cid = None \<and> (cid, resp) \<in> R)"

definition single_inv :: "(nat \<Rightarrow> (string \<times> nat \<times> HttpResponseData) option) \<Rightarrow> bool" where
  "single_inv D \<longleftrightarrow> (\<forall>t t' d d'. D t = Some d \<longrightarrow> D t' = Some d' \<longrightarrow> fst (snd d) = fst (snd d') \<longrightarrow> t = t')"

definition source_inv :: "(nat \<Rightarrow> string) \<Rightarrow> HttpResponseData option list \<Rightarrow> (nat \<Rightarrow> call_phase option) \<Rightarrow>
    (string \<times> HttpResponseData) set \<Rightarrow> bool" where
  "source_inv uuid C K R \<longleftrightarrow>
     (\<forall>ch resp. ch < length C \<longrightarrow> C ! ch = Some resp \<longrightarrow> (uuid ch, resp) \<in> R) \<and>
     (\<forall>n ph resp. K n = Some ph \<longrightarrow> call_reply ph = Some resp \<longrightarrow> (uuid n, resp) \<in> R)"

lemma pending_take:
  "pending_inv uuid P C K N \<Longrightarrow> pending_inv uuid (P(cid := None)) C K N"
  unfolding pending_inv_def by auto

lemma deliver_take:
  assumes "pending_inv uuid P C K N" "deliver_inv uuid P C D N R" "P cid = Some ch"
  shows "deliver_inv uuid (P(cid := None)) C (D(t \<mapsto> (cid, ch, resp))) N (insert (cid, resp) R)"
  using assms unfolding pending_inv_def deliver_inv_def by auto

lemma single_take:
  assumes "pending_inv uuid P C K N" "deliver_inv uuid P C D N R" "P cid = Some ch" "single_inv D"
  shows "single_inv (D(t \<mapsto> (cid, ch, resp)))"
proof -
  have "fst (snd d) \<noteq> ch" if "D t' = Some d" for t' d
    using that assms unfolding pending_inv_def deliver_inv_def
    by (metis option.distinct(1) prod.collapse)
  then show ?thesis using assms(4) unfolding single_inv_def by (auto split: if_splits, blast+)
qed

lemma source_more: "source_inv uuid C K R \<Longrightarrow> source_inv uuid C K (insert x R)"
  unfolding source_inv_def by auto

lemma pending_put:
  assumes "pending_inv uuid P C K N" "deliver_inv uuid P C D N R" "D t = Some (cid, ch, resp)"
  shows "pending_inv uuid P (C[ch := Some resp]) K N"
proof -
  have "P cid' \<noteq> Some ch" for cid'
    using assms unfolding pending_inv_def deliver_inv_def by (metis option.distinct(1))
  then show ?thesis using assms(1) unfolding pending_inv_def by (auto simp: nth_update)
qed

lemma deliver_put:
  assumes "deliver_inv uuid P C D N R" "D t = Some (cid, ch, resp)" "single_inv D"
  shows "deliver_inv uuid P (C[ch := Some resp]) (D(t := None)) N R"
proof -
  have "c \<noteq> ch" if "D t' = Some (cid', c, r)" "t' \<noteq> t" for t' cid' c r
    using that assms(2,3) unfolding single_inv_def by fastforce
  then show ?thesis using assms(1) unfolding deliver_inv_def by (auto simp: nth_update)
qed

lemma single_put: "single_inv D \<Longrightarrow> single_inv (D(t := None))"
  unfolding single_inv_def by auto

lemma source_put:
  assumes "source_inv uuid C K R" "deliver_inv uuid P C D N R" "D t = Some (cid, ch, resp)"
  shows "source_inv uuid (C[ch := Some resp]) K R"
  using assms unfolding source_inv_def deliver_inv_def by (auto simp: nth_update split: if_splits)

lemma pending_open:
  assumes "pending_inv uuid P C K N"
  shows "pending_inv uuid (P(uuid N \<mapsto> N)) (C @ [None]) (K(N \<mapsto> Opened req p N)) (Suc N)"
  using assms unfolding pending_inv_def by (auto simp: nth_append less_Suc_eq)

lemma deliver_open:
  assumes "length C = N" "deliver_inv uuid P C D N R" "inj uuid"
  shows "deliver_inv uuid (P(uuid N \<mapsto> N)) (C @ [None]) D (Suc N) R"
proof -
  have "cid \<noteq> uuid N" if "D t = Some (cid, ch, resp)" for t cid ch resp
    using that assms(2,3) unfolding deliver_inv_def inj_def by (metis nat_less_le)
  then show ?thesis using assms(1,2) unfolding deliver_inv_def by (auto simp: nth_append less_Suc_eq)
qed

lemma source_open:
  "source_inv uuid C K R \<Longrightarrow> source_inv uuid (C @ [None]) (K(n \<mapsto> Opened req p ch)) R"
  unfolding source_inv_def by (auto simp: nth_append less_Suc_eq)

text \<open>A call that moves on, with its entry where it was and the reply it had.\<close>

lemma pending_move:
  assumes "pending_inv uuid P C K N" "K n = Some ph" "call_live ph \<longrightarrow> call_live ph'"
    "\<forall>ch. call_chan ph' = Some ch \<longrightarrow> call_chan ph = Some ch"
  shows "pending_inv uuid P C (K(n \<mapsto> ph')) N"
  using assms unfolding pending_inv_def by (auto, metis option.inject)

lemma source_move:
  assumes "source_inv uuid C K R" "K n = Some ph" "\<forall>resp. call_reply ph' = Some resp \<longrightarrow> call_reply ph = Some resp"
  shows "source_inv uuid C (K(n \<mapsto> ph')) R"
  using assms unfolding source_inv_def by auto

lemma pending_forget:
  assumes "pending_inv uuid P C K N" "K n = Some ph"
  shows "pending_inv uuid (P(uuid n := None)) C (K(n \<mapsto> Returned (Inl er))) N"
  using assms unfolding pending_inv_def by auto

lemma deliver_forget: "deliver_inv uuid P C D N R \<Longrightarrow> deliver_inv uuid (P(cid := None)) C D N R"
  unfolding deliver_inv_def by auto

lemma pending_receive:
  assumes "pending_inv uuid P C K N" "K n = Some (Waiting req p ch)" "C ! ch = Some resp"
  shows "pending_inv uuid P (C[ch := None]) (K(n \<mapsto> Received req p resp)) N"
proof -
  have c: "ch = n" using assms(1,2) unfolding pending_inv_def by fastforce
  then have "P cid \<noteq> Some n" for cid
    using assms(1,3) unfolding pending_inv_def by auto
  then show ?thesis using assms c unfolding pending_inv_def by (auto simp: nth_update)
qed

lemma deliver_receive: "deliver_inv uuid P C D N R \<Longrightarrow> deliver_inv uuid P (C[ch := None]) D N R"
  unfolding deliver_inv_def by (auto simp: nth_update)

lemma source_receive:
  assumes "pending_inv uuid P C K N" "source_inv uuid C K R" "K n = Some (Waiting req p ch)" "C ! ch = Some resp"
  shows "source_inv uuid (C[ch := None]) (K(n \<mapsto> Received req p resp)) R"
proof -
  have "ch = n" "n < length C" using assms(1,3) unfolding pending_inv_def by fastforce+
  then show ?thesis using assms(2,4) unfolding source_inv_def by (auto simp: nth_update split: if_splits)
qed

definition talks_ok :: "(nat \<Rightarrow> string) \<Rightarrow> System \<Rightarrow> bool" where
  "talks_ok uuid s \<longleftrightarrow>
     pending_inv uuid (fmlookup (pending (host s))) (chans (host s)) (fmlookup (calls s)) (ncalls s) \<and>
     deliver_inv uuid (fmlookup (pending (host s))) (chans (host s)) (delivering (conns s)) (ncalls s) (set (replies s)) \<and>
     single_inv (delivering (conns s)) \<and>
     source_inv uuid (chans (host s)) (fmlookup (calls s)) (set (replies s))"

lemma delivering_upd: "delivering (fmupd t ph cs) = (delivering cs)(t := delivery ph)"
  by (auto simp: delivering_def)

lemma delivering_drop: "delivering (fmdrop t cs) = (delivering cs)(t := None)"
  by (auto simp: delivering_def)

text \<open>A step that moves no reply.\<close>

lemma talks_ok_keep:
  assumes "talks_ok uuid s" "pending (host s') = pending (host s)" "chans (host s') = chans (host s)"
    "delivering (conns s') = delivering (conns s)" "calls s' = calls s" "ncalls s' = ncalls s" "replies s' = replies s"
  shows "talks_ok uuid s'"
  using assms by (simp add: talks_ok_def)

lemma talk_frames:
  "authenticate e r w h = (x, h') \<Longrightarrow> pending h' = pending h \<and> chans h' = chans h"
  "assignSubdomain rng req h = (y, h') \<Longrightarrow> pending h' = pending h \<and> chans h' = chans h"
  "register n u c us nm rm h = (p, h') \<Longrightarrow> pending h' = pending h \<and> chans h' = chans h"
  by (auto simp: authenticate_def assignSubdomain_def register_def claim_def Let_def
      split: if_splits prod.splits sum.splits option.splits)

lemma talk_frames_simp [simp]:
  "pending (releaseName n h) = pending h" "chans (releaseName n h) = chans h"
  "pending (open_event k p h) = pending h" "chans (open_event k p h) = chans h"
  "pending (greet b i p h) = pending h" "chans (greet b i p h) = chans h"
  "pending (close_client k p h) = pending h" "chans (close_client k p h) = chans h"
  "pending (recordRequest k u m pa st h) = pending h" "chans (recordRequest k u m pa st h) = chans h"
  "pending (put_chan c x h) = pending h" "chans (put_chan c x h) = (chans h)[c := Some x]"
  "pending (forget_pending cid h) = fmdrop cid (pending h)" "chans (forget_pending cid h) = chans h"
  "chans (received c p h) = (chans h)[c := None]"
  by (auto simp: releaseName_def open_event_def greet_def send_def close_client_def recordRequest_def
      put_chan_def forget_pending_def received_def Let_def split: option.splits prod.splits sum.splits)

lemma send_talk: "send b c k cid x h = (ok, h') \<Longrightarrow> pending h' = pending h \<and> chans h' = chans h"
  by (auto simp: send_def Let_def split: if_splits)

lemma delivering_none: "fmlookup cs t = Some ph \<Longrightarrow> delivery ph = None \<Longrightarrow> (delivering cs)(t := None) = delivering cs"
  by (auto simp: delivering_def)

lemma delivering_new: "fmlookup cs t = None \<Longrightarrow> (delivering cs)(t := None) = delivering cs"
  by (auto simp: delivering_def)

lemma talks_step:
  assumes "inj uuid"
  shows "step uuid s s' \<Longrightarrow> talks_ok uuid s \<Longrightarrow> talks_ok uuid s'"
proof (induction rule: step.induct)
  case (conn_auth s t e r w user h)
  show ?case by (rule talks_ok_keep [OF conn_auth(3)])
      (use conn_auth(1) talk_frames(1) [OF conn_auth(2)] in \<open>simp_all add: delivering_upd delivering_new\<close>)
next
  case (conn_claim s t user req remote rng name h)
  show ?case by (rule talks_ok_keep [OF conn_claim(3)])
      (use conn_claim(1) talk_frames(2) [OF conn_claim(2)] in \<open>simp_all add: delivering_upd delivering_none\<close>)
next
  case (conn_refused s t user req remote rng err h)
  show ?case by (rule talks_ok_keep [OF conn_refused(3)])
      (use conn_refused(1) talk_frames(2) [OF conn_refused(2)] in \<open>simp_all add: delivering_drop delivering_none\<close>)
next
  case (conn_register s t name user remote clock cid conn p h)
  show ?case by (rule talks_ok_keep [OF conn_register(3)])
      (use conn_register(1) talk_frames(3) [OF conn_register(2)] in \<open>simp_all add: delivering_upd delivering_none\<close>)
next
  case (conn_take s t p m cid resp ch h)
  have h: "pending h = fmdrop cid (pending (host s))" "chans h = chans (host s)"
    "fmlookup (pending (host s)) cid = Some ch"
    using conn_take(3) by (auto simp: take_pending_def split: option.splits)
  then show ?case
    using conn_take(4) unfolding talks_ok_def
    by (simp add: delivering_upd fmdrop_lookup_upd pending_take source_more)
      (blast intro: deliver_take single_take)
next
  case (conn_put s t p cid ch resp)
  have "delivering (conns s) t = Some (cid, ch, resp)" using conn_put(1) by (simp add: delivering_def)
  then show ?case
    using conn_put(3) unfolding talks_ok_def
    by (simp add: delivering_upd deliver_put single_put) (blast intro: pending_put source_put)
next
  case (call_open p s ch h req)
  have h: "ch = length (chans (host s))" "chans h = chans (host s) @ [None]"
    "pending h = fmupd (uuid (ncalls s)) ch (pending (host s))"
    using call_open(2) by (auto simp: open_pending_def Let_def)
  have l: "length (chans (host s)) = ncalls s" using call_open(3) by (simp add: talks_ok_def pending_inv_def)
  show ?case
    using call_open(3) assms l h unfolding talks_ok_def
    by (simp add: fmupd_lookup_upd pending_open deliver_open source_open)
next
  case (call_send s n req p ch ok h)
  then show ?case
    using send_talk [OF call_send(2)] unfolding talks_ok_def
    by (simp add: fmupd_lookup_upd pending_move source_move)
next
  case (call_forget s n er)
  then show ?case unfolding talks_ok_def
    by (simp add: fmupd_lookup_upd fmdrop_lookup_upd pending_forget deliver_forget source_move)
next
  case (call_receive s n req p ch resp)
  then show ?case unfolding talks_ok_def
    by (simp add: fmupd_lookup_upd pending_receive deliver_receive) (blast intro: source_receive)
next
  case (call_record s n req p resp clock)
  then show ?case unfolding talks_ok_def
    by (simp add: fmupd_lookup_upd pending_move source_move)
qed (auto simp: talks_ok_def fmupd_lookup_upd delivering_upd delivering_drop delivering_none pending_move source_move)

subsection \<open>The invariants of the running system\<close>

interpretation names_sys: invariant_system "system_init cfg d" "step uuid" "\<lambda>s. names_ok (host s) (conns s)"
  for cfg d uuid
proof unfold_locales
  fix s assume "system_init cfg d s"
  then show "names_ok (host s) (conns s)"
    by (simp add: system_init_def NewTunnelHost_def names_ok_def matches_def held_def pointers_ok_def)
qed (rule names_step)

interpretation talks_sys: invariant_system "system_init cfg d" "step uuid" "\<lambda>s. inj uuid \<longrightarrow> talks_ok uuid s"
  for cfg d uuid
proof unfold_locales
  fix s assume "system_init cfg d s"
  then show "inj uuid \<longrightarrow> talks_ok uuid s"
    by (simp add: system_init_def NewTunnelHost_def talks_ok_def pending_inv_def deliver_inv_def
        single_inv_def source_inv_def delivering_def)
qed (auto intro: talks_step)

lemmas names_reachable = names_sys.reachable_inv

lemma talks_reachable:
  "reach (system_init cfg d) (step uuid) s \<Longrightarrow> inj uuid \<Longrightarrow> talks_ok uuid s"
  using talks_sys.reachable_inv by blast

lemma names_matches:
  assumes "reach (system_init cfg d) (step uuid) s"
  shows "fmlookup (clients (host s)) k = Some v \<longleftrightarrow> (\<exists>t. held (host s) (conns s) t = Some (k, v))"
    and "held (host s) (conns s) t = Some (k, v) \<Longrightarrow> held (host s) (conns s) t' = Some (k, v') \<Longrightarrow> t = t'"
  using names_reachable [OF assms] by (auto simp: names_ok_def matches_def)


subsection \<open>Properties\<close>

text \<open>
  C9. Whatever connections come, claim names, are refused, fail and leave, in any interleaving:
  the client map holds exactly the names the connection goroutines hold, placeholders and clients
  alike, and no two of them hold the same lowercased name. So no name is taken twice and none
  leaks.
\<close>

theorem names_exclusive:
  assumes "reach (system_init cfg d) (step uuid) s"
  shows "(fmlookup (clients (host s)) k = Some v \<longleftrightarrow> (\<exists>t. held (host s) (conns s) t = Some (k, v))) \<and>
    (held (host s) (conns s) t1 = Some (k, v1) \<longrightarrow> held (host s) (conns s) t2 = Some (k, v2) \<longrightarrow> t1 = t2)"
  using names_matches [OF assms] by blast


text \<open>
  C11. A read loop that has taken a reply for a waiting request never blocks on handing it over:
  the channel has its place free, so the loop goes on reading.
\<close>

theorem delivery_never_blocks:
  assumes "inj uuid" "reach (system_init cfg d) (step uuid) s"
    and "fmlookup (conns s) t = Some (Delivering p cid ch resp)"
  shows "\<exists>s'. step uuid s s' \<and> fmlookup (conns s') t = Some (Reading p)"
proof -
  have "delivering (conns s) t = Some (cid, ch, resp)" by (simp add: assms(3) delivering_def)
  then have "chans (host s) ! ch = None"
    using talks_reachable [OF assms(2,1)] by (auto simp: talks_ok_def deliver_inv_def)
  note s = conn_put [OF assms(3) this, of uuid]
  show ?thesis by (intro exI conjI, rule s) simp
qed

text \<open>
  C10. A forwarded request returns only a reply that was read, from some connection, in a message
  that names the conversation id of this very request.
\<close>

theorem reply_matches_request:
  assumes "inj uuid" "reach (system_init cfg d) (step uuid) s"
    and "fmlookup (calls s) n = Some (Returned (Inr resp))"
  shows "(uuid n, resp) \<in> set (replies s)"
  using talks_reachable [OF assms(2,1)] assms(3) by (auto simp: talks_ok_def source_inv_def)

text \<open>
  C12. The map of pending requests does not leak: once every forwarded request has its reply or has
  returned, by reply, failed write, timeout or cancellation, the map is empty.
\<close>

theorem pending_no_leak:
  assumes "inj uuid" "reach (system_init cfg d) (step uuid) s"
    and "\<forall>n ph. fmlookup (calls s) n = Some ph \<longrightarrow> \<not> call_live ph"
  shows "pending (host s) = fmempty"
proof (rule fmap_ext)
  fix cid
  have "fmlookup (pending (host s)) cid \<noteq> Some ch" for ch
    using talks_reachable [OF assms(2,1)] assms(3) unfolding talks_ok_def pending_inv_def by metis
  then have "fmlookup (pending (host s)) cid = None" by blast
  then show "fmlookup (pending (host s)) cid = fmlookup fmempty cid" by simp
qed

subsection \<open>A concrete run\<close>

definition sample_cfg :: TunnelHostSettings where
  "sample_cfg = \<lparr>thHostName = ''*'', thPort = 8001,
     thClientDomain = \<lparr>cdDomain = ''t.io'', cdSubDomains = []\<rparr>, thSsl = None\<rparr>"

definition uuid_of :: "nat \<Rightarrow> string" where
  "uuid_of n = itoa (int n)"

lemma inj_uuid_of: "inj uuid_of"
  by (auto simp: inj_def uuid_of_def dest: itoa_inject)

definition connect_request :: Request where
  "connect_request = \<lparr>rMethod = ''GET'', rHost = ''t.io'', rURI = ''/'',
     rHeader = fmap_of_list [(''Authorization'', [''Bearer tok'']), (''Ntunl-Subdomain'', [''Api''])],
     rBody = Some [], rForm = fmempty, rRemoteAddr = ''1.2.3.4:5'', rPathID = []\<rparr>"

definition reply_frame :: string where
  "reply_frame = Marshal \<lparr>cmdType = CmdHttpResponse, cmdConv = uuid_of 0, cmdData = marshal_response sample_response\<rparr>"

definition run0 :: System where
  "run0 = \<lparr>host = NewTunnelHost sample_cfg sample_db, conns = fmempty, calls = fmempty, ncalls = 0, replies = []\<rparr>"
definition run1 :: System where
  "run1 = conn_to 0 (Authed alice ''Api'' ''1.2.3.4:5'')
     (snd (authenticate sample_env connect_request new_writer (host run0))) run0"
definition run2 :: System where
  "run2 = conn_to 0 (Named ''Api'' alice ''1.2.3.4:5'') (snd (assignSubdomain (\<lambda>k. k) ''Api'' (host run1))) run1"
definition run3 :: System where
  "run3 = conn_to 0 (Registered 0) (snd (register 7 ''c0'' 3 alice ''Api'' ''1.2.3.4:5'' (host run2))) run2"
definition run4 :: System where
  "run4 = conn_to 0 (Evented 0) (open_event 7 0 (host run3)) run3"
definition run5 :: System where
  "run5 = conn_to 0 (Reading 0) (greet False ''i0'' 0 (host run4)) run4"
definition run6 :: System where
  "run6 = (call_to 0 (Opened sample_request 0 0) (snd (open_pending (uuid_of 0) (host run5))) run5)\<lparr>ncalls := 1\<rparr>"
definition run7 :: System where
  "run7 = call_to 0 (Waiting sample_request 0 0)
     (snd (send True 3 CmdHttpRequest (uuid_of 0) (marshal_request sample_request) (host run6))) run6"
definition run8 :: System where
  "run8 = (conn_to 0 (Delivering 0 (uuid_of 0) 0 sample_response) (snd (take_pending (uuid_of 0) (host run7))) run7)
     \<lparr>replies := [(uuid_of 0, sample_response)]\<rparr>"
definition run9 :: System where
  "run9 = conn_to 0 (Reading 0) (put_chan 0 sample_response (host run8)) run8"
definition run10 :: System where
  "run10 = call_to 0 (Received sample_request 0 sample_response) (received 0 0 (host run9)) run9"
definition run11 :: System where
  "run11 = call_to 0 (Returned (Inr sample_response))
     (recordRequest 9 (ciUserID (objs (host run10) ! 0)) (rqMethod sample_request) (rqPath sample_request)
        (rsStatusCode sample_response) (host run10)) run10"

lemmas run_defs = run1_def run2_def run3_def run4_def run5_def run6_def run7_def run8_def run9_def
  run10_def run11_def

lemma run_auth: "fst (authenticate sample_env connect_request new_writer (host run0)) = Inr alice"
  "header_get (rHeader connect_request) SubdomainHeader = ''Api''" "rRemoteAddr connect_request = ''1.2.3.4:5''"
  by code_simp+

lemma run_assign: "fst (assignSubdomain (\<lambda>k. k) ''Api'' (host run1)) = Inr ''Api''"
  by code_simp

lemma auth_frames [simp]:
  "objs (snd (authenticate e r w h)) = objs h" "chans (snd (authenticate e r w h)) = chans h"
  "pending (snd (authenticate e r w h)) = pending h"
  using authenticate_frame [of e r w h] talk_frames(1) [of e r w h] by (metis prod.collapse)+

lemma assign_frames [simp]:
  "objs (snd (assignSubdomain rng req h)) = objs h" "chans (snd (assignSubdomain rng req h)) = chans h"
  "pending (snd (assignSubdomain rng req h)) = pending h"
  by (auto simp: assignSubdomain_def claim_def Let_def split: option.split)

lemma open_event_conn [simp]:
  "length (objs (open_event n p h)) = length (objs h)"
  "ciConn (objs (open_event n p h) ! q) = ciConn (objs h ! q)"
  by (auto simp: open_event_def Let_def nth_update split: prod.split sum.split)

lemma send_true: "send True c k cid x h = (True, snd (send True c k cid x h))"
  by (simp add: send_def Let_def)

lemma send_frames [simp]:
  "objs (snd (send True c k cid x h)) = objs h" "pending (snd (send True c k cid x h)) = pending h"
  "chans (snd (send True c k cid x h)) = chans h" "clients (snd (send True c k cid x h)) = clients h"
  by (simp_all add: send_def Let_def)

lemma run_start: "objs (host run2) = []" "chans (host run2) = []" "pending (host run2) = fmempty"
proof -
  have "objs (host run1) = []" "chans (host run1) = []" "pending (host run1) = fmempty"
    by (simp_all add: run1_def run0_def NewTunnelHost_def)
  then show "objs (host run2) = []" "chans (host run2) = []" "pending (host run2) = fmempty"
    by (simp_all add: run2_def)
qed

lemma run_conn: "length (objs (host run5)) = 1" "ciConn (objs (host run5) ! 0) = 3"
  "chans (host run5) = []" "pending (host run5) = fmempty"
proof -
  have "length (objs (host run3)) = 1" "ciConn (objs (host run3) ! 0) = 3"
    "chans (host run3) = []" "pending (host run3) = fmempty"
    by (simp_all add: run3_def register_def Let_def run_start)
  then have "length (objs (host run4)) = 1" "ciConn (objs (host run4) ! 0) = 3"
    "chans (host run4) = []" "pending (host run4) = fmempty"
    by (simp_all add: run4_def)
  then show "length (objs (host run5)) = 1" "ciConn (objs (host run5) ! 0) = 3"
    "chans (host run5) = []" "pending (host run5) = fmempty"
    by (simp_all add: run5_def)
qed

lemma run_pending: "objs (host run6) = objs (host run5)" "chans (host run6) = [None]"
  "pending (host run6) = fmupd (uuid_of 0) 0 fmempty"
  by (simp_all add: run6_def open_pending_def Let_def run_conn)

lemma run_chans: "pending (host run7) = fmupd (uuid_of 0) 0 fmempty"
  "chans (host run8) = [None]" "chans (host run9) = [Some sample_response]"
proof -
  show p: "pending (host run7) = fmupd (uuid_of 0) 0 fmempty" by (simp add: run7_def run_pending)
  have "chans (host run7) = [None]" by (simp add: run7_def run_pending)
  with p show c: "chans (host run8) = [None]" by (simp add: run8_def take_pending_def)
  then show "chans (host run9) = [Some sample_response]" by (simp add: run9_def)
qed

lemma run_conns:
  "fmlookup (conns run0) 0 = None" "fmlookup (conns run1) 0 = Some (Authed alice ''Api'' ''1.2.3.4:5'')"
  "fmlookup (conns run2) 0 = Some (Named ''Api'' alice ''1.2.3.4:5'')" "fmlookup (conns run3) 0 = Some (Registered 0)"
  "fmlookup (conns run4) 0 = Some (Evented 0)" "fmlookup (conns run5) 0 = Some (Reading 0)"
  "conns run6 = conns run5" "conns run7 = conns run6" "calls run5 = fmempty"
  "fmlookup (conns run8) 0 = Some (Delivering 0 (uuid_of 0) 0 sample_response)"
proof -
  have c: "calls run4 = calls run3" "calls run3 = calls run2" "calls run2 = calls run1" "calls run1 = calls run0"
    by (simp_all add: run4_def) (simp_all add: run3_def run2_def run1_def)
  show "calls run5 = fmempty" by (simp add: run5_def c) (simp add: run0_def)
  show "conns run6 = conns run5" by (simp add: run6_def)
  show "conns run7 = conns run6" by (simp add: run7_def)
qed (simp_all add: run0_def, simp_all add: run1_def, simp_all add: run2_def, simp_all add: run3_def,
    simp_all add: run4_def, simp_all add: run5_def, simp add: run8_def)

lemma run_calls:
  "fmlookup (calls run6) 0 = Some (Opened sample_request 0 0)"
  "calls run9 = calls run7"
  "fmlookup (calls run7) 0 = Some (Waiting sample_request 0 0)"
  "fmlookup (calls run10) 0 = Some (Received sample_request 0 sample_response)"
  "fmlookup (calls run11) 0 = Some (Returned (Inr sample_response))"
  "ncalls run5 = 0" "replies run7 = []"
proof -
  have "calls run8 = calls run7" by (simp add: run8_def)
  then show "calls run9 = calls run7" by (simp add: run9_def)
  have "ncalls run4 = 0" by (simp add: run4_def) (simp add: run3_def run2_def run1_def run0_def)
  then show "ncalls run5 = 0" by (simp add: run5_def)
  have "replies run4 = []" by (simp add: run4_def) (simp add: run3_def run2_def run1_def run0_def)
  then have "replies run5 = []" by (simp add: run5_def)
  then have "replies run6 = []" by (simp add: run6_def)
  then show "replies run7 = []" by (simp add: run7_def)
qed (simp add: run6_def, simp add: run7_def, simp add: run10_def, simp add: run11_def)

lemma run_done: "fmlookup (calls run11) n = Some ph \<Longrightarrow> \<not> call_live ph"
proof -
  have "fmdom (calls run7) = {|0|}" 
  proof -
    have "fmdom (calls run6) = {|0|}" by (simp add: run6_def run_calls run_conns)
    then show ?thesis by (simp add: run7_def)
  qed
  then have "fmdom (calls run10) = {|0|}" by (simp add: run10_def run_calls)
  then have "fmdom (calls run11) = {|0|}" by (simp add: run11_def)
  moreover assume "fmlookup (calls run11) n = Some ph"
  ultimately have "n = 0" by (metis fmdomI fsingletonE)
  with \<open>fmlookup (calls run11) n = Some ph\<close> show "\<not> call_live ph" by (auto simp: run_calls)
qed

lemma run_reply: "decode_reply reply_frame = Some (uuid_of 0, sample_response)"
proof -
  have "valid_utf8 (uuid_of 0)" by code_simp
  then have "Unmarshal reply_frame = Some \<lparr>cmdType = CmdHttpResponse, cmdConv = uuid_of 0, cmdData = marshal_response sample_response\<rparr>"
    unfolding reply_frame_def
    by (intro command_codec.dec_enc)
      (simp add: command_ok_def response_codec.enc_text samples_ok cmd_type_defs int64_range_def)
  moreover have "marshal_response sample_response \<noteq> []" by code_simp
  ultimately show ?thesis
    by (simp add: decode_reply_def response_codec.dec_enc samples_ok)
qed

lemma run_steps:
  "step uuid_of run0 run1" "step uuid_of run1 run2" "step uuid_of run2 run3" "step uuid_of run3 run4"
  "step uuid_of run4 run5" "step uuid_of run5 run6" "step uuid_of run6 run7" "step uuid_of run7 run8"
  "step uuid_of run8 run9" "step uuid_of run9 run10" "step uuid_of run10 run11"
proof -
  have a: "authenticate sample_env connect_request new_writer (host run0) =
      (Inr alice, snd (authenticate sample_env connect_request new_writer (host run0)))"
    "assignSubdomain (\<lambda>k. k) ''Api'' (host run1) = (Inr ''Api'', snd (assignSubdomain (\<lambda>k. k) ''Api'' (host run1)))"
    by (metis prod.collapse run_auth(1), metis prod.collapse run_assign)
  show "step uuid_of run0 run1"
    using conn_auth [OF run_conns(1) a(1), of uuid_of] unfolding run1_def run_auth(2,3) .
  show "step uuid_of run1 run2"
    using conn_claim [OF run_conns(2) a(2), of uuid_of] unfolding run2_def .
  have r: "register 7 ''c0'' 3 alice ''Api'' ''1.2.3.4:5'' (host run2) =
      (0, snd (register 7 ''c0'' 3 alice ''Api'' ''1.2.3.4:5'' (host run2)))"
    by (simp add: register_def Let_def run_start)
  show "step uuid_of run2 run3"
    using conn_register [OF run_conns(3) r, of uuid_of] unfolding run3_def .
  show "step uuid_of run3 run4" unfolding run4_def by (rule conn_event [OF run_conns(4)])
  show "step uuid_of run4 run5" unfolding run5_def by (rule conn_greet [OF run_conns(5)])
  have o: "open_pending (uuid_of (ncalls run5)) (host run5) = (0, snd (open_pending (uuid_of 0) (host run5)))"
    by (simp add: open_pending_def Let_def run_conn run_calls)
  show "step uuid_of run5 run6"
    using call_open [where uuid = uuid_of and s = run5 and p = 0 and req = sample_request, OF _ o]
    unfolding run6_def by (simp add: run_conn run_calls)
  have c: "ciConn (objs (host run6) ! 0) = 3" by (simp add: run_pending run_conn)
  show "step uuid_of run6 run7"
    using call_send [where uuid = uuid_of, OF run_calls(1) send_true] unfolding run7_def c .
  have tk: "take_pending (uuid_of 0) (host run7) = (Some 0, snd (take_pending (uuid_of 0) (host run7)))"
    by (simp add: take_pending_def run_chans)
  have "fmlookup (conns run7) 0 = Some (Reading 0)" by (simp add: run_conns)
  from conn_take [OF this run_reply tk, of uuid_of] show "step uuid_of run7 run8"
    unfolding run8_def by (simp add: run_calls)
  show "step uuid_of run8 run9" unfolding run9_def
    by (rule conn_put [OF run_conns(10)]) (simp add: run_chans)
  show "step uuid_of run9 run10" unfolding run10_def
    by (rule call_receive) (simp_all add: run_chans run_calls)
  show "step uuid_of run10 run11" unfolding run11_def by (rule call_record [OF run_calls(4)])
qed

lemma run_reachable:
  "reach (system_init sample_cfg sample_db) (step uuid_of) run7"
  "reach (system_init sample_cfg sample_db) (step uuid_of) run8"
  "reach (system_init sample_cfg sample_db) (step uuid_of) run11"
proof -
  note r = reach_step [where init = "system_init sample_cfg sample_db" and trans = "step uuid_of"]
  have "reach (system_init sample_cfg sample_db) (step uuid_of) run0"
    by (rule reach_init) (simp add: system_init_def run0_def)
  from r [OF r [OF r [OF r [OF r [OF r [OF r [OF this run_steps(1)] run_steps(2)] run_steps(3)]
    run_steps(4)] run_steps(5)] run_steps(6)] run_steps(7)]
  show r7: "reach (system_init sample_cfg sample_db) (step uuid_of) run7" .
  show r8: "reach (system_init sample_cfg sample_db) (step uuid_of) run8" by (rule r [OF r7 run_steps(8)])
  show "reach (system_init sample_cfg sample_db) (step uuid_of) run11"
    by (rule r [OF r [OF r [OF r8 run_steps(9)] run_steps(10)] run_steps(11)])
qed


lemma names_exclusive_witness:
  "fmlookup (clients (host run7)) (lower ''api'') = Some (Some 0) \<longleftrightarrow>
    (\<exists>t. held (host run7) (conns run7) t = Some (lower ''api'', Some 0))"
  using names_exclusive [OF run_reachable(1)] by blast


lemma delivery_never_blocks_witness:
  "\<exists>s'. step uuid_of run8 s' \<and> fmlookup (conns s') 0 = Some (Reading 0)"
  by (rule delivery_never_blocks [OF inj_uuid_of run_reachable(2) run_conns(10)])

lemma reply_matches_request_witness: "(uuid_of 0, sample_response) \<in> set (replies run11)"
  by (rule reply_matches_request [OF inj_uuid_of run_reachable(3) run_calls(5)])

lemma pending_no_leak_witness: "pending (host run11) = fmempty"
  by (rule pending_no_leak [OF inj_uuid_of run_reachable(3)]) (blast dest: run_done)

end
