(* ===== verification/HttpServer.thy ===== *)
theory HttpServer
  imports TunnelHost
begin

text \<open>
  The public listener of the host (\<open>internal/host/httpserver.go\<close>): it finds the client for
  a request's subdomain, forwards the request over the tunnel and writes the client's response.
  Loops over maps take the order in which \<open>range\<close> yields the entries. The log lines are left
  out.
\<close>

subsection \<open>Settings and construction\<close>

record HttpHeaderSettings =
  hhBlackList :: "string list"
  hhIpHeaderName :: string

record HttpHostSettings =
  hsHostName :: string
  hsPort :: int
  hsHeaders :: HttpHeaderSettings
  hsDefaultResponseCode :: int

record HttpServer =
  blacklist :: "string list"
  blacklistWild :: "string list"
  ipHeaderName :: string
  defaultCode :: int

definition add_blacklist :: "string \<Rightarrow> HttpServer \<Rightarrow> HttpServer" where
  "add_blacklist item s =
     (if contains item ''*'' then s\<lparr>blacklistWild := blacklistWild s @ [trim_right item ''*'']\<rparr>
      else s\<lparr>blacklist := List.insert (to_lower item) (blacklist s)\<rparr>)"

definition NewHttpServer :: "HttpHostSettings \<Rightarrow> HttpServer" where
  "NewHttpServer cfg =
     fold add_blacklist (hhBlackList (hsHeaders cfg))
       \<lparr>blacklist = [], blacklistWild = [],
        ipHeaderName = (if hhIpHeaderName (hsHeaders cfg) = [] then ''X-Forwarded-For'' else hhIpHeaderName (hsHeaders cfg)),
        defaultCode = (if hsDefaultResponseCode cfg = 0 then 404 else hsDefaultResponseCode cfg)\<rparr>"

subsection \<open>Request headers\<close>

fun wild_loop :: "string list \<Rightarrow> string \<Rightarrow> bool" where
  "wild_loop [] key = False"
| "wild_loop (p # ps) key = (if has_prefix (to_lower key) (to_lower p) then True else wild_loop ps key)"

definition matchesWild :: "HttpServer \<Rightarrow> string \<Rightarrow> bool" where
  "matchesWild s key = wild_loop (blacklistWild s) key"

fun collect_loop :: "HttpServer \<Rightarrow> (string \<times> string list) list \<Rightarrow> headers \<times> string \<Rightarrow> headers \<times> string" where
  "collect_loop s [] acc = acc"
| "collect_loop s ((key, vals) # it) (out, ip) =
     (if vals = [] then collect_loop s it (out, ip)
      else if to_lower key \<in> set (blacklist s) then collect_loop s it (out, ip)
      else if equal_fold key (ipHeaderName s) then collect_loop s it (out, hd vals)
      else if matchesWild s key then collect_loop s it (out, ip)
      else collect_loop s it (fmupd key (join vals '','') out, ip))"

definition collectHeaders :: "HttpServer \<Rightarrow> (string \<times> string list) list \<Rightarrow> Request \<Rightarrow> headers \<times> string" where
  "collectHeaders s it r =
     (case collect_loop s it (fmempty, ''unknown'') of
        (out, ip) \<Rightarrow> (if rHost r \<noteq> [] then fmupd ''Host'' (rHost r) out else out, ip))"

definition valueOr :: "string \<Rightarrow> string \<Rightarrow> string" where
  "valueOr v fallback = (if v = [] then fallback else v)"

definition make_request :: "HttpServer \<Rightarrow> (string \<times> string list) list \<Rightarrow> Request \<Rightarrow> string \<Rightarrow> HttpRequestData" where
  "make_request s it r body =
     \<lparr>rqHeaders = fst (collectHeaders s it r), rqMethod = rMethod r, rqPath = rURI r, rqContent = body,
      rqContentHeaders = fmap_of_list
        [(''Content-Type'', valueOr (header_get (rHeader r) ''Content-Type'') ''application/octet-stream''),
         (''Content-Length'', itoa (int (length body)))]\<rparr>"

subsection \<open>Writing responses\<close>

definition notFoundPage :: string where \<open>notFoundPage = join
    [''<!DOCTYPE html>'',
     ''<html lang="en">'',
     ''<head>'',
     ''<meta charset="utf-8">'',
     ''<meta name="viewport" content="width=device-width, initial-scale=1">'',
     ''<title>Tunnel not available</title>'',
     ''<style>'',
     ''  html,body{height:100%;margin:0}'',
     ''  body{display:flex;align-items:center;justify-content:center;'',
     ''       font-family:system-ui,-apple-system,Segoe UI,Roboto,sans-serif;'',
     ''       background:#0f172a;color:#e2e8f0}'',
     ''  .card{text-align:center;padding:2.5rem 3rem}'',
     ''  .code{font-size:4rem;font-weight:700;letter-spacing:-2px;color:#38bdf8;margin:0}'',
     ''  h1{font-size:1.25rem;font-weight:600;margin:.5rem 0 .25rem}'',
     ''  p{color:#94a3b8;margin:.25rem 0}'',
     ''</style>'',
     ''</head>'',
     ''<body>'',
     ''  <div class="card">'',
     ''    <p class="code">404</p>'',
     ''    <h1>Tunnel not available</h1>'',
     ''    <p>No client is currently connected for this address.</p>'',
     ''  </div>'',
     ''</body>'',
     ''</html>''] [CHR 0x0A]\<close>

definition writeNotFound :: "HttpServer \<Rightarrow> Writer \<Rightarrow> Writer" where
  "writeNotFound s w =
     snd (Write notFoundPage
       (WriteHeader (defaultCode s)
         (set_header ''Cache-Control'' ''no-store''
           (set_header ''Content-Type'' ''text/html; charset=utf-8'' w))))"

text \<open>The response a client sent; \<open>it\<close> is the order of its headers.\<close>

definition copy_headers :: "(string \<times> string) list \<Rightarrow> Writer \<Rightarrow> Writer" where
  "copy_headers it w = fold (\<lambda>(k, v) w. set_header k v w) it w"

definition writeResponse :: "(string \<times> string) list \<Rightarrow> HttpResponseData \<Rightarrow> Writer \<Rightarrow> Writer" where
  "writeResponse it resp w =
     (let w1 = copy_headers it w;
          w2 = (case fmlookup (rsContentHeaders resp) ''Content-Encoding'' of
                  Some enc \<Rightarrow> set_header ''Content-Encoding'' enc w1 | None \<Rightarrow> w1);
          w3 = (case fmlookup (rsContentHeaders resp) ''Content-Type'' of
                  Some ct \<Rightarrow> set_header ''Content-Type'' ct w2
                | None \<Rightarrow> set_header ''Content-Type'' ''application/octet-stream'' w2);
          status = (if rsStatusCode resp = 0 then StatusOK else rsStatusCode resp);
          w4 = WriteHeader status w3
      in if wPanicked w4 then w4 else snd (Write (rsContent resp) w4))"

subsection \<open>The handler\<close>

text \<open>
  What one request takes from outside: the order of the client map, of the request headers and of
  a map of response headers, and what the forwarding takes.
\<close>

record HandleInput =
  hiClients :: "(string \<times> nat option) list"
  hiHeaders :: "(string \<times> string list) list"
  hiResponse :: "headers \<Rightarrow> (string \<times> string) list"
  hiSend :: SendInput

definition clientName :: "Request \<Rightarrow> string" where
  "clientName r = hd (split_byte (CHR ''.'') (rHost r))"

definition find_client :: "HandleInput \<Rightarrow> Request \<Rightarrow> TunnelHost \<Rightarrow> nat option" where
  "find_client i r h =
     (if clientName r = ''localhost'' \<or> clientName r = ''192'' then GetAnyClient (hiClients i)
      else GetClient h (clientName r))"

definition handle :: "int \<Rightarrow> HandleInput \<Rightarrow> HttpServer \<Rightarrow> Request \<Rightarrow> Writer \<Rightarrow> TunnelHost \<Rightarrow> Writer \<times> TunnelHost" where
  "handle clock i s r w h =
     (case find_client i r h of
        None \<Rightarrow> (writeNotFound s w, h)
      | Some client \<Rightarrow>
          (case rBody r of
             None \<Rightarrow> (WriteHeader StatusInternalServerError w, h)
           | Some body \<Rightarrow>
               (case SendHttpRequest clock (hiSend i) (make_request s (hiHeaders i) r body) client h of
                  (Inl _, h') \<Rightarrow> (WriteHeader StatusBadGateway w, h')
                | (Inr resp, h') \<Rightarrow> (writeResponse (hiResponse i (rsHeaders resp)) resp w, h'))))"

subsection \<open>Which headers are forwarded\<close>

text \<open>A header the server keeps back.\<close>

definition hidden :: "HttpServer \<Rightarrow> string \<Rightarrow> bool" where
  "hidden s key \<longleftrightarrow> to_lower key \<in> set (blacklist s) \<or> equal_fold key (ipHeaderName s) \<or> matchesWild s key"

lemma collect_loop_lookup:
  "distinct (map fst it) \<Longrightarrow> fmlookup (fst (collect_loop s it acc)) k =
    (case map_of it k of
       None \<Rightarrow> fmlookup (fst acc) k
     | Some vals \<Rightarrow> if vals = [] \<or> hidden s k then fmlookup (fst acc) k else Some (join vals '',''))"
proof (induction it arbitrary: acc)
  case (Cons kv it)
  obtain key vals out ip where e: "kv = (key, vals)" "acc = (out, ip)" by (metis surj_pair)
  then have "key \<notin> fst ` set it" using Cons.prems by simp
  then have "map_of it key = None" by (simp add: map_of_eq_None_iff)
  moreover have "distinct (map fst it)" using Cons.prems by simp
  ultimately show ?case using e by (cases "key = k") (simp_all add: Cons.IH hidden_def split: option.split)
qed simp

lemma wild_loop_iff: "wild_loop ps key \<longleftrightarrow> (\<exists>p\<in>set ps. has_prefix (to_lower key) (to_lower p))"
  by (induction ps) auto

lemma fold_blacklist:
  "x \<in> set (blacklist (fold add_blacklist items s)) \<longleftrightarrow>
     x \<in> set (blacklist s) \<or> (\<exists>i\<in>set items. \<not> contains i ''*'' \<and> to_lower i = x)"
  "x \<in> set (blacklistWild (fold add_blacklist items s)) \<longleftrightarrow>
     x \<in> set (blacklistWild s) \<or> (\<exists>i\<in>set items. contains i ''*'' \<and> trim_right i ''*'' = x)"
  "ipHeaderName (fold add_blacklist items s) = ipHeaderName s"
  "defaultCode (fold add_blacklist items s) = defaultCode s"
  by (induction items arbitrary: s) (auto simp: add_blacklist_def)

text \<open>What one item of the configured blacklist covers.\<close>

definition item_covers :: "string \<Rightarrow> string \<Rightarrow> bool" where
  "item_covers item key \<longleftrightarrow>
     (if contains item ''*'' then has_prefix (to_lower key) (to_lower (trim_right item ''*''))
      else to_lower item = to_lower key)"

lemma hidden_new:
  "hidden (NewHttpServer cfg) key \<longleftrightarrow>
     (\<exists>item\<in>set (hhBlackList (hsHeaders cfg)). item_covers item key) \<or>
     equal_fold key (ipHeaderName (NewHttpServer cfg))"
  by (auto simp: hidden_def NewHttpServer_def fold_blacklist matchesWild_def wild_loop_iff item_covers_def Bex_def)

subsection \<open>What the response writer ends with\<close>




lemma set_header_frame [simp]:
  "wSent (set_header k v w) = wSent w" "wPanicked (set_header k v w) = wPanicked w"
  "wBody (set_header k v w) = wBody w" "wHeader (set_header k v w) = header_set k v (wHeader w)"
  by (simp_all add: set_header_def)

lemma copy_headers_frame [simp]:
  "wSent (copy_headers it w) = wSent w" "wPanicked (copy_headers it w) = wPanicked w"
  "wBody (copy_headers it w) = wBody w"
  by (induction it arbitrary: w) (auto simp: copy_headers_def)

definition response_status :: "HttpResponseData \<Rightarrow> int" where
  "response_status resp = (if rsStatusCode resp = 0 then StatusOK else rsStatusCode resp)"

text \<open>The header map when the status is written.\<close>

definition response_writer :: "(string \<times> string) list \<Rightarrow> HttpResponseData \<Rightarrow> Writer \<Rightarrow> Writer" where
  "response_writer it resp w =
     (let w1 = copy_headers it w;
          w2 = (case fmlookup (rsContentHeaders resp) ''Content-Encoding'' of
                  Some enc \<Rightarrow> set_header ''Content-Encoding'' enc w1 | None \<Rightarrow> w1)
      in set_header ''Content-Type''
           (case fmlookup (rsContentHeaders resp) ''Content-Type'' of
              Some ct \<Rightarrow> ct | None \<Rightarrow> ''application/octet-stream'') w2)"

lemma writeResponse_alt:
  "writeResponse it resp w =
     (let w4 = WriteHeader (response_status resp) (response_writer it resp w)
      in if wPanicked w4 then w4 else snd (Write (rsContent resp) w4))"
  by (simp add: writeResponse_def response_writer_def response_status_def Let_def split: option.split)

lemma response_writer_frame [simp]:
  "wSent (response_writer it resp w) = wSent w" "wPanicked (response_writer it resp w) = wPanicked w"
  "wBody (response_writer it resp w) = wBody w"
  "header_get (wHeader (response_writer it resp w)) ''Content-Type'' =
     (case fmlookup (rsContentHeaders resp) ''Content-Type'' of Some ct \<Rightarrow> ct | None \<Rightarrow> ''application/octet-stream'')"
  by (simp_all add: response_writer_def Let_def split: option.split)




lemma handle_host_wf:
  assumes "host_wf h" "\<And>g. host_wf g \<Longrightarrow> host_wf (siOthers (hiSend i) g)"
  shows "host_wf (snd (handle clock i s r w h))"
proof -
  have "host_wf (snd (SendHttpRequest clock (hiSend i) req p h))" for req p
    using host_wf_begin [OF assms(1), of "siWritten (hiSend i)" "siUuid (hiSend i)" req p]
      host_wf_finish assms(2)
    by (auto simp: SendHttpRequest_def split: prod.splits sum.splits)
  then show ?thesis
    using assms(1) by (auto simp: handle_def split: option.splits prod.splits sum.splits) (metis snd_conv)+
qed

subsection \<open>Properties\<close>

text \<open>
  C22. Whatever order the request's header map is walked in, the forwarded headers are exactly the
  request's own that are not on the blacklist, not covered by a wildcard item and not the client IP
  header, each with its values joined by commas, and the \<open>Host\<close> the request came with.
\<close>

theorem forwarded_headers:
  assumes "go_range it (rHeader r)" "s = NewHttpServer cfg"
  shows "fmlookup (fst (collectHeaders s it r)) k =
    (if k = ''Host'' \<and> rHost r \<noteq> [] then Some (rHost r)
     else (case fmlookup (rHeader r) k of
             None \<Rightarrow> None
           | Some vals \<Rightarrow>
               (if vals = [] \<or> equal_fold k (ipHeaderName s) \<or>
                   (\<exists>item\<in>set (hhBlackList (hsHeaders cfg)). item_covers item k)
                then None else Some (join vals '',''))))"
proof -
  obtain out ip where c: "collect_loop s it (fmempty, ''unknown'') = (out, ip)" by fastforce
  have m: "map_of it = fmlookup (rHeader r)" "distinct (map fst it)"
    using assms(1) unfolding go_range_def by (metis fmlookup_fmap_of_list, simp)
  have "fmlookup out k = (case fmlookup (rHeader r) k of None \<Rightarrow> None
      | Some vals \<Rightarrow> if vals = [] \<or> hidden s k then None else Some (join vals '',''))"
    using collect_loop_lookup [OF m(2), of s "(fmempty, ''unknown'')" k] c m(1) by (simp split: option.split)
  then show ?thesis
    using c by (simp add: collectHeaders_def hidden_new assms(2) disj_commute split: option.split)
qed

text \<open>
  When the tunnel delivers a response, the visitor gets its status (200 for none), its content
  type (or \<open>application/octet-stream\<close>) and its body, unless the status admits no body or the
  client declared another length.
\<close>

lemma response_relayed:
  assumes "find_client i r h = Some p" "rBody r = Some body"
    and "SendHttpRequest clock (hiSend i) (make_request s (hiHeaders i) r body) p h = (Inr resp, h')"
    and "200 \<le> response_status resp" "response_status resp \<le> 999" "body_allowed (response_status resp)"
    and "declared_length (wHeader (response_writer (hiResponse i (rsHeaders resp)) resp new_writer)) = None"
    and "w' = fst (handle clock i s r new_writer h)"
  shows "sent_status w' = Some (response_status resp) \<and> wBody w' = rsContent resp \<and>
    (\<exists>hdr. wSent w' = Some (response_status resp, hdr) \<and>
       header_get hdr ''Content-Type'' = (case fmlookup (rsContentHeaders resp) ''Content-Type'' of
          Some ct \<Rightarrow> ct | None \<Rightarrow> ''application/octet-stream''))"
proof -
  let ?v = "response_writer (hiResponse i (rsHeaders resp)) resp new_writer"
  have f: "wSent ?v = None" "\<not> wPanicked ?v" "wBody ?v = []"
    by (simp_all add: new_writer_def)
  have "w' = snd (Write (rsContent resp) (?v\<lparr>wSent := Some (response_status resp, wHeader ?v)\<rparr>))"
    using assms f by (simp add: handle_def writeResponse_alt Let_def)
  then show ?thesis
    using assms(6,7) f by (auto simp: Write_def Let_def sent_status_def)
qed


text \<open>
  For a name no client serves the visitor gets the not-found page with the configured status,
  and nothing is forwarded: the host does not change.
\<close>

lemma no_client_not_found:
  assumes "find_client i r h = None" "200 \<le> defaultCode s" "defaultCode s \<le> 999" "body_allowed (defaultCode s)"
  shows "snd (handle clock i s r new_writer h) = h \<and>
    sent_status (fst (handle clock i s r new_writer h)) = Some (defaultCode s) \<and>
    wBody (fst (handle clock i s r new_writer h)) = notFoundPage"
proof -
  have "declared_length (header_set ''Cache-Control'' ''no-store''
      (header_set ''Content-Type'' ''text/html; charset=utf-8'' fmempty)) = None" by code_simp
  then show ?thesis
    using assms by (auto simp: handle_def writeNotFound_def sent_status_def Write_def Let_def new_writer_def)
qed

text \<open>A host given with its port is no longer the name \<open>localhost\<close>.\<close>

lemma localhost_with_port: "clientName (r\<lparr>rHost := ''localhost:9200''\<rparr>) = ''localhost:9200''"
  by (simp add: clientName_def)

subsection \<open>Concrete cases\<close>

definition sample_host :: TunnelHost where
  "sample_host = (NewTunnelHost pool_cfg sample_db)\<lparr>clients := fmap_of_list [(''one'', Some 0)],
     objs := [\<lparr>ciId = ''c'', ciUserID = 1, ciName = ''One'', ciRemoteAddr = [], ciConnectedAt = 0,
               ciEventID = 0, ciRequests = 0, ciConn = 3\<rparr>]\<rparr>"

definition sample_input :: HandleInput where
  "sample_input = \<lparr>hiClients = [], hiHeaders = [(''Accept'', [''*/*'']), (''Cookie'', [''a=b''])],
     hiResponse = sorted_list_of_fmap,
     hiSend = \<lparr>siUuid = ''u'', siWritten = True, siOthers = put_chan 0 sample_response, siWake = Reply\<rparr>\<rparr>"

definition sample_visit :: Request where
  "sample_visit = \<lparr>rMethod = ''GET'', rHost = ''one.t.io'', rURI = ''/'',
     rHeader = fmap_of_list [(''Accept'', [''*/*'']), (''Cookie'', [''a=b''])],
     rBody = Some [], rForm = fmempty, rRemoteAddr = ''1.2.3.4:5'', rPathID = []\<rparr>"

definition sample_http_cfg :: HttpHostSettings where
  "sample_http_cfg = \<lparr>hsHostName = [], hsPort = 9000,
     hsHeaders = \<lparr>hhBlackList = [''Coo*''], hhIpHeaderName = []\<rparr>, hsDefaultResponseCode = 0\<rparr>"

lemma sample_client: "find_client sample_input sample_visit sample_host = Some 0"
proof -
  have "clientName sample_visit = ''one''" by code_simp
  moreover have "lower ''one'' = ''one''" by code_simp
  ultimately show ?thesis by (simp add: find_client_def GetClient_def sample_host_def)
qed

lemma sample_send:
  "SendHttpRequest 9 (hiSend sample_input) req 0 sample_host =
     (Inr sample_response, snd (SendHttpRequest 9 (hiSend sample_input) req 0 sample_host))"
  by (simp add: SendHttpRequest_def begin_request_def open_pending_def send_def put_chan_def
      finish_request_def sample_input_def sample_host_def NewTunnelHost_def Let_def)

lemma forwarded_headers_witness:
  "fmlookup (fst (collectHeaders (NewHttpServer sample_http_cfg) (hiHeaders sample_input) sample_visit)) ''Cookie'' = None"
proof -
  have r: "go_range (hiHeaders sample_input) (rHeader sample_visit)"
    by (simp add: go_range_def sample_input_def sample_visit_def)
  have "item_covers ''Coo*'' ''Cookie''" by code_simp
  then show ?thesis
    using forwarded_headers [OF r, of "NewHttpServer sample_http_cfg" sample_http_cfg "''Cookie''"]
    by (simp add: sample_http_cfg_def split: option.splits)
qed

lemma response_relayed_witness:
  "sent_status (fst (handle 9 sample_input (NewHttpServer sample_http_cfg) sample_visit new_writer sample_host)) = Some 201"
proof -
  have b: "rBody sample_visit = Some []" by (simp add: sample_visit_def)
  have s: "response_status sample_response = 201" by (simp add: response_status_def sample_response_def)
  have d: "declared_length (wHeader (response_writer (hiResponse sample_input (rsHeaders sample_response)) sample_response new_writer)) = None"
    unfolding sample_input_def by simp code_simp
  show ?thesis
    using response_relayed [OF sample_client b sample_send _ _ _ d refl, of "NewHttpServer sample_http_cfg"] s
    by (simp add: body_allowed_def)
qed

lemma no_client_not_found_witness:
  "sent_status (fst (handle 9 sample_input (NewHttpServer sample_http_cfg) plain_request new_writer sample_host)) = Some 404"
proof -
  have "clientName plain_request = ''t''" "lower ''t'' = ''t''" by code_simp+
  then have n: "find_client sample_input plain_request sample_host = None"
    by (simp add: find_client_def GetClient_def sample_host_def)
  have "defaultCode (NewHttpServer sample_http_cfg) = 404"
    by (simp add: NewHttpServer_def add_blacklist_def sample_http_cfg_def)
  then show ?thesis
    using no_client_not_found [OF n, of "NewHttpServer sample_http_cfg"] by (simp add: body_allowed_def)
qed

end
