(* ===== verification/Compress.thy ===== *)
theory Compress
  imports Prelude
begin

text \<open>
  Compression and the join of URL paths (\<open>internal/compress\<close>). The gzip and brotli formats
  themselves are arguments: \<open>Formats\<close> holds for each the encoder and the decoder, with
  \<open>None\<close> for an error.
\<close>

record Formats =
  gzip_write :: "string \<Rightarrow> string option"
  gzip_read :: "string \<Rightarrow> string option"
  brotli_write :: "string \<Rightarrow> string option"
  brotli_read :: "string \<Rightarrow> string option"

datatype EncodeType = EncodeNone | EncodeGzip | EncodeBrotli

definition GzipCompress :: "Formats \<Rightarrow> string \<Rightarrow> string option" where
  "GzipCompress fmts data = gzip_write fmts data"

definition GzipDecompress :: "Formats \<Rightarrow> string \<Rightarrow> string option" where
  "GzipDecompress fmts data = gzip_read fmts data"

definition BrotliCompress :: "Formats \<Rightarrow> string \<Rightarrow> string option" where
  "BrotliCompress fmts data = brotli_write fmts data"

definition BrotliDecompress :: "Formats \<Rightarrow> string \<Rightarrow> string option" where
  "BrotliDecompress fmts data = brotli_read fmts data"

definition Compress :: "Formats \<Rightarrow> string \<Rightarrow> EncodeType \<Rightarrow> string option" where
  "Compress fmts data encoding = (case encoding of
     EncodeBrotli \<Rightarrow> BrotliCompress fmts data
   | EncodeGzip \<Rightarrow> GzipCompress fmts data
   | EncodeNone \<Rightarrow> Some data)"

definition CombineUrlPath :: "string \<Rightarrow> string \<Rightarrow> string" where
  "CombineUrlPath path subpath = trim_right path ''/'' @ ''/'' @ trim_left subpath ''/''"

subsection \<open>Formats that read back what they wrote\<close>

definition Decompress :: "Formats \<Rightarrow> string \<Rightarrow> EncodeType \<Rightarrow> string option" where
  "Decompress fmts data encoding = (case encoding of
     EncodeBrotli \<Rightarrow> BrotliDecompress fmts data
   | EncodeGzip \<Rightarrow> GzipDecompress fmts data
   | EncodeNone \<Rightarrow> Some data)"

definition lossless :: "Formats \<Rightarrow> bool" where
  "lossless fmts \<longleftrightarrow> (\<forall>x. \<exists>y. gzip_write fmts x = Some y \<and> gzip_read fmts y = Some x) \<and>
     (\<forall>x. \<exists>y. brotli_write fmts x = Some y \<and> brotli_read fmts y = Some x)"

lemma compress_reads_back:
  "lossless fmts \<Longrightarrow> \<exists>y. Compress fmts x enc = Some y \<and> Decompress fmts y enc = Some x"
  by (cases enc) (simp_all add: lossless_def Compress_def Decompress_def GzipCompress_def
      GzipDecompress_def BrotliCompress_def BrotliDecompress_def)

lemma trim_right_slash: "trim_right (p @ ''/'') ''/'' = trim_right p ''/''"
  by (simp add: trim_right_def)

lemma trim_right_no_slash: "\<not> suffix ''/'' (trim_right p ''/'')"
  using trim_right_last [of p "''/''"] by (fastforce elim: suffixE)

lemma trim_left_no_slash: "\<not> prefix ''/'' (trim_left s ''/'')"
  using trim_left_hd [of s "''/''"] by (fastforce elim: prefixE)

subsection \<open>Properties\<close>

text \<open>
  Joining a base address and a path puts exactly one slash between them, however many either
  side had: what comes before it does not end in one and what comes after it does not begin with one,
  and adding slashes at the joint changes nothing.
\<close>

lemma combine_one_slash:
  "(\<exists>a b. CombineUrlPath p s = a @ ''/'' @ b \<and> \<not> suffix ''/'' a \<and> \<not> prefix ''/'' b \<and>
      (\<exists>m n. p = a @ replicate m (CHR ''/'') \<and> s = replicate n (CHR ''/'') @ b)) \<and>
   CombineUrlPath (p @ ''/'') s = CombineUrlPath p s \<and> CombineUrlPath p (''/'' @ s) = CombineUrlPath p s"
proof (intro conjI)
  have l: "\<exists>n. s = replicate n (CHR ''/'') @ dropWhile (\<lambda>c. c = CHR ''/'') s" for s
  proof (induction s)
    case (Cons c s)
    then obtain n where n: "s = replicate n (CHR ''/'') @ dropWhile (\<lambda>c. c = CHR ''/'') s" by blast
    show ?case
    proof (cases "c = CHR ''/''")
      case True
      then have "c # s = replicate (Suc n) (CHR ''/'') @ dropWhile (\<lambda>c. c = CHR ''/'') (c # s)"
        using n by simp
      then show ?thesis by blast
    qed (auto intro: exI [of _ 0])
  qed simp
  obtain n where n: "s = replicate n (CHR ''/'') @ trim_left s ''/''"
    using l [of s] by (auto simp: trim_left_def)
  obtain m where "rev p = replicate m (CHR ''/'') @ dropWhile (\<lambda>c. c = CHR ''/'') (rev p)"
    using l [of "rev p"] by blast
  then have "rev (rev p) = rev (replicate m (CHR ''/'') @ dropWhile (\<lambda>c. c = CHR ''/'') (rev p))"
    by (rule arg_cong)
  then have m: "p = trim_right p ''/'' @ replicate m (CHR ''/'')"
    by (simp add: trim_right_def)
  show "\<exists>a b. CombineUrlPath p s = a @ ''/'' @ b \<and> \<not> suffix ''/'' a \<and> \<not> prefix ''/'' b \<and>
      (\<exists>m n. p = a @ replicate m (CHR ''/'') \<and> s = replicate n (CHR ''/'') @ b)"
    using m n trim_right_no_slash [of p] trim_left_no_slash [of s] unfolding CombineUrlPath_def
    by (intro exI [of _ "trim_right p ''/''"] exI [of _ "trim_left s ''/''"]) blast
qed (simp_all add: CombineUrlPath_def trim_right_slash trim_left_def)

end
