(* ===== verification/ClientHandler.thy ===== *)
theory ClientHandler
  imports Compress Http Protocol
begin

text \<open>
  The client's replay of forwarded requests (\<open>internal/client/handler.go\<close>, with the settings
  of \<open>config.go\<close>). Compiling a regular expression, parsing a URL and the local service are
  arguments; a compiled expression is its \<open>ReplaceAll\<close>. Loops over maps take the order
  \<open>range\<close> yields. Log lines are left out.
\<close>

subsection \<open>Settings (\<open>config.go\<close>)\<close>

record TunnelSetting =
  tsSslEnabled :: bool
  tsAllowInvalid :: bool
  tsNtunlAddress :: string
  tsDesiredSubdomain :: string
  tsAddress :: string
  tsHostHeader :: string
  tsCustomHeader :: headers
  tsRewriteEnabled :: bool
  tsRewritePattern :: string

record InspectorConfig =
  icEnabled :: bool
  icPort :: int

record Config =
  cfTunnels :: "TunnelSetting list"
  cfInspector :: InspectorConfig
  cfPortalAddress :: string

subsection \<open>State\<close>

record RequestLog =
  rlRequest :: HttpRequestData
  rlResponse :: HttpResponseData

type_synonym regex = "string \<Rightarrow> string \<Rightarrow> string"

record tunnelState =
  stSettings :: TunnelSetting
  stRewriteRegex :: "regex option"
  stRewriteEnabled :: bool
  stInfo :: "NtunlInfo option"

definition newTunnelState :: "(string \<Rightarrow> regex option) \<Rightarrow> TunnelSetting \<Rightarrow> tunnelState option" where
  "newTunnelState compile ts =
     (let st = \<lparr>stSettings = ts, stRewriteRegex = None, stRewriteEnabled = False, stInfo = None\<rparr> in
      if tsRewriteEnabled ts \<and> trim_space (tsRewritePattern ts) \<noteq> []
      then (case compile (tsRewritePattern ts) of
              None \<Rightarrow> None
            | Some re \<Rightarrow> Some (st\<lparr>stRewriteRegex := Some re, stRewriteEnabled := True\<rparr>))
      else Some st)"

definition setInfo :: "NtunlInfo \<Rightarrow> tunnelState \<Rightarrow> tunnelState" where
  "setInfo info st = st\<lparr>stInfo := Some info\<rparr>"

definition url :: "tunnelState \<Rightarrow> string" where
  "url st = (case stInfo st of None \<Rightarrow> [] | Some info \<Rightarrow> niUrl info)"

text \<open>The handler's retained pairs of request and response; \<open>snapshot\<close> copies them.\<close>

type_synonym logs = "RequestLog list"

definition snapshot :: "logs \<Rightarrow> logs" where
  "snapshot ls = map (\<lambda>i. ls ! i) [0..<length ls]"

subsection \<open>The request to the local service\<close>

record OutRequest =
  oqMethod :: string
  oqURL :: string
  oqHost :: "string option"
  oqHeader :: http_header
  oqBody :: "string option"

record InResponse =
  irStatus :: int
  irHeader :: http_header
  irBody :: "string option"

definition methodOrGet :: "string \<Rightarrow> string" where
  "methodOrGet m = (if m \<in> {''POST'', ''PUT'', ''DELETE''} then m else ''GET'')"

text \<open>The body of the loop over the forwarded headers, and the loop.\<close>

definition forward_header :: "TunnelSetting \<Rightarrow> string \<times> string \<Rightarrow> OutRequest \<Rightarrow> OutRequest" where
  "forward_header ts = (\<lambda>(k, v) q.
     if k = ''Host'' \<and> trim_space (tsHostHeader ts) \<noteq> [] then q\<lparr>oqHost := Some (tsHostHeader ts)\<rparr>
     else (case fmlookup (tsCustomHeader ts) k of
             Some custom \<Rightarrow> q\<lparr>oqHeader := header_set k custom (oqHeader q)\<rparr>
           | None \<Rightarrow>
               (if k = ''Content-Length'' \<or> k = ''Content-Type'' then q
                else q\<lparr>oqHeader := header_add k v (oqHeader q)\<rparr>)))"

definition header_loop :: "TunnelSetting \<Rightarrow> (string \<times> string) list \<Rightarrow> OutRequest \<Rightarrow> OutRequest" where
  "header_loop ts it = fold (forward_header ts) it"

definition build_request :: "TunnelSetting \<Rightarrow> (string \<times> string) list \<Rightarrow> HttpRequestData \<Rightarrow> OutRequest" where
  "build_request ts it rq =
     (let q0 = \<lparr>oqMethod = methodOrGet (rqMethod rq), oqURL = CombineUrlPath (tsAddress ts) (rqPath rq),
                oqHost = None, oqHeader = fmempty,
                oqBody = (if rqContent rq \<noteq> [] then Some (rqContent rq) else None)\<rparr>;
          q1 = header_loop ts it q0
      in (case fmlookup (rqContentHeaders rq) ''Content-Type'' of
            Some ct \<Rightarrow> (if rqContent rq \<noteq> [] then q1\<lparr>oqHeader := header_set ''Content-Type'' ct (oqHeader q1)\<rparr> else q1)
          | None \<Rightarrow> q1))"

subsection \<open>The response back\<close>

definition content_header_names :: "string list" where
  "content_header_names = [''content-type'', ''content-length'', ''content-encoding'', ''content-language'',
     ''content-range'', ''content-disposition'', ''content-location'', ''expires'', ''last-modified'', ''allow'']"

definition isContentHeader :: "string \<Rightarrow> bool" where
  "isContentHeader k \<longleftrightarrow> to_lower k \<in> set content_header_names"

fun split_headers :: "(string \<times> string list) list \<Rightarrow> headers \<times> headers \<Rightarrow> headers \<times> headers" where
  "split_headers [] acc = acc"
| "split_headers ((k, v) # it) (hs, chs) =
     (let joined = join v '','' in
      if isContentHeader k then split_headers it (hs, fmupd k joined chs)
      else split_headers it (fmupd k joined hs, chs))"

text \<open>
  \<open>rewriteBody\<close> changes the response in place, also when it ends with an error; the result
  says whether it succeeded.
\<close>

definition unpack :: "Formats \<Rightarrow> HttpResponseData \<Rightarrow> (EncodeType \<times> HttpResponseData) option" where
  "unpack fmts rd =
     (let enc = (case fmlookup (rsContentHeaders rd) ''Content-Encoding'' of None \<Rightarrow> [] | Some x \<Rightarrow> x) in
      if enc = ''br'' then
        (case BrotliDecompress fmts (rsContent rd) of
           None \<Rightarrow> None | Some dec \<Rightarrow> Some (EncodeBrotli, rd\<lparr>rsContent := dec\<rparr>))
      else if enc = ''gzip'' then
        (case GzipDecompress fmts (rsContent rd) of
           None \<Rightarrow> None | Some dec \<Rightarrow> Some (EncodeGzip, rd\<lparr>rsContent := dec\<rparr>))
      else Some (EncodeNone, rd))"

definition rewriteBody :: "Formats \<Rightarrow> regex \<Rightarrow> string \<Rightarrow> HttpResponseData \<Rightarrow> bool \<times> HttpResponseData" where
  "rewriteBody fmts re u rd =
     (case unpack fmts rd of
        None \<Rightarrow> (False, rd)
      | Some (enc, rd1) \<Rightarrow>
          (case Compress fmts (re (rsContent rd1) u) enc of
             None \<Rightarrow> (False, rd1)
           | Some recompressed \<Rightarrow>
               (True, rd1\<lparr>rsContent := recompressed,
                  rsContentHeaders := fmupd ''Content-Length'' (itoa (int (length recompressed))) (rsContentHeaders rd1)\<rparr>)))"

definition plain_response :: "(string \<times> string list) list \<Rightarrow> InResponse \<Rightarrow> string \<Rightarrow> HttpResponseData" where
  "plain_response it resp body =
     (case split_headers it (fmempty, fmempty) of (hs, chs) \<Rightarrow>
       \<lparr>rsStatusCode = irStatus resp, rsContent = body,
        rsContentHeaders = fmupd ''Content-Length'' (itoa (int (length body))) chs, rsHeaders = hs\<rparr>)"

definition wants_rewrite :: "tunnelState \<Rightarrow> HttpResponseData \<Rightarrow> bool" where
  "wants_rewrite st out \<longleftrightarrow> stRewriteEnabled st \<and>
     (case fmlookup (rsContentHeaders out) ''Content-Type'' of
        Some ct \<Rightarrow> contains ct ''text/html'' | None \<Rightarrow> False) \<and> url st \<noteq> []"

definition buildResponse :: "Formats \<Rightarrow> (string \<times> string list) list \<Rightarrow> InResponse \<Rightarrow> tunnelState \<Rightarrow> HttpResponseData option" where
  "buildResponse fmts it resp st = (case irBody resp of
     None \<Rightarrow> None
   | Some body \<Rightarrow>
       (let out = plain_response it resp body in
        if wants_rewrite st out
        then (case stRewriteRegex st of
                Some re \<Rightarrow> Some (snd (rewriteBody fmts re (url st) out))
              | None \<Rightarrow> Some out)
        else Some out))"

subsection \<open>The handler\<close>

text \<open>What one replay takes from outside.\<close>

record ReplayInput =
  riFormats :: Formats
  riOrder :: "headers \<Rightarrow> (string \<times> string) list"
  riRespOrder :: "http_header \<Rightarrow> (string \<times> string list) list"
  riUrlOk :: "string \<Rightarrow> bool"
  riLocal :: "OutRequest \<Rightarrow> InResponse option"

datatype handler_error = NoData | BadData | BadURL | LocalFailed | BodyFailed

definition handle_command :: "ReplayInput \<Rightarrow> Command \<Rightarrow> tunnelState \<Rightarrow> logs \<Rightarrow> (handler_error + Command) \<times> logs" where
  "handle_command i cmd st ls =
     (if trim_space (cmdData cmd) = [] then (Inl NoData, ls)
      else (case unmarshal_request (cmdData cmd) of
        None \<Rightarrow> (Inl BadData, ls)
      | Some rq \<Rightarrow>
          (let q = build_request (stSettings st) (riOrder i (rqHeaders rq)) rq in
           if \<not> riUrlOk i (oqURL q) then (Inl BadURL, ls)
           else (case riLocal i q of
             None \<Rightarrow> (Inl LocalFailed, ls)
           | Some resp \<Rightarrow>
               (case buildResponse (riFormats i) (riRespOrder i (irHeader resp)) resp st of
                  None \<Rightarrow> (Inl BodyFailed, ls)
                | Some rd \<Rightarrow>
                    (Inr \<lparr>cmdType = CmdHttpResponse, cmdConv = cmdConv cmd, cmdData = marshal_response rd\<rparr>,
                     ls @ [\<lparr>rlRequest = rq, rlResponse = rd\<rparr>]))))))"

subsection \<open>Requests\<close>

text \<open>What becomes of one forwarded header whose name is canonical already.\<close>

definition replayed_header :: "TunnelSetting \<Rightarrow> string \<Rightarrow> string \<Rightarrow> string list option" where
  "replayed_header ts k v =
     (if k = ''Host'' \<and> trim_space (tsHostHeader ts) \<noteq> [] then None
      else (case fmlookup (tsCustomHeader ts) k of
              Some c \<Rightarrow> Some [c]
            | None \<Rightarrow> (if k \<in> {''Content-Length'', ''Content-Type''} then None else Some [v])))"

lemma forward_header_frame [simp]:
  "oqMethod (forward_header ts kv q) = oqMethod q" "oqURL (forward_header ts kv q) = oqURL q"
  "oqBody (forward_header ts kv q) = oqBody q"
  by (simp_all add: forward_header_def split: prod.split option.split)

lemma forward_header_host: "oqHost (forward_header ts kv q) =
  (if fst kv = ''Host'' \<and> trim_space (tsHostHeader ts) \<noteq> [] then Some (tsHostHeader ts) else oqHost q)"
  by (simp add: forward_header_def split: prod.split option.split)

lemma forward_header_lookup:
  assumes "canonical_key k1 = k1" "fmlookup (oqHeader q) k1 = None"
  shows "fmlookup (oqHeader (forward_header ts (k1, v) q)) k =
    (if k = k1 then replayed_header ts k1 v else fmlookup (oqHeader q) k)"
proof (cases "k1 = ''Host'' \<and> trim_space (tsHostHeader ts) \<noteq> []")
  case True
  then show ?thesis using assms(2) by (simp add: forward_header_def replayed_header_def)
next
  case False
  then show ?thesis using assms
    by (cases "fmlookup (tsCustomHeader ts) k1"; cases "k1 = ''Content-Length'' \<or> k1 = ''Content-Type''")
      (simp_all add: forward_header_def replayed_header_def header_set_def header_add_def Let_def del: de_Morgan_conj)
qed

lemma header_loop_frame [simp]:
  "oqMethod (header_loop ts it q) = oqMethod q" "oqURL (header_loop ts it q) = oqURL q"
  "oqBody (header_loop ts it q) = oqBody q"
  by (induction it arbitrary: q) (simp_all add: header_loop_def)

lemma header_loop_host:
  "oqHost (header_loop ts it q) =
     (if ''Host'' \<in> fst ` set it \<and> trim_space (tsHostHeader ts) \<noteq> [] then Some (tsHostHeader ts) else oqHost q)"
  by (induction it arbitrary: q) (auto simp add: header_loop_def forward_header_host)

lemma header_loop_lookup:
  assumes "distinct (map fst it)" "list_all (\<lambda>(k, v). canonical_key k = k) it"
    and "\<And>k'. k' \<in> fst ` set it \<Longrightarrow> fmlookup (oqHeader q) k' = None"
  shows "fmlookup (oqHeader (header_loop ts it q)) k = (case map_of it k of
      Some v \<Rightarrow> replayed_header ts k v | None \<Rightarrow> fmlookup (oqHeader q) k)"
  using assms
proof (induction it arbitrary: q)
  case (Cons kv it)
  obtain k1 v1 where kv: "kv = (k1, v1)" by (cases kv)
  have n: "map_of it k1 = None" using Cons.prems kv by (simp add: map_of_eq_None_iff)
  have l: "fmlookup (oqHeader (forward_header ts kv q)) k' =
      (if k' = k1 then replayed_header ts k1 v1 else fmlookup (oqHeader q) k')" for k'
    using forward_header_lookup Cons.prems kv by simp
  have "fmlookup (oqHeader (header_loop ts it (forward_header ts kv q))) k = (case map_of it k of
      Some v \<Rightarrow> replayed_header ts k v | None \<Rightarrow> fmlookup (oqHeader (forward_header ts kv q)) k)"
    by (rule Cons.IH) (use Cons.prems kv l in \<open>auto simp: image_iff\<close>)
  then show ?case using kv l n by (simp add: header_loop_def split: option.split)
qed (simp add: header_loop_def)

subsection \<open>Responses\<close>

lemma split_headers_lookup:
  assumes "distinct (map fst it)" "split_headers it acc = (hs, chs)"
  shows "fmlookup hs k = (case map_of it k of
           Some v \<Rightarrow> if isContentHeader k then fmlookup (fst acc) k else Some (join v '','')
         | None \<Rightarrow> fmlookup (fst acc) k)" (is ?h)
    and "fmlookup chs k = (case map_of it k of
           Some v \<Rightarrow> if isContentHeader k then Some (join v '','') else fmlookup (snd acc) k
         | None \<Rightarrow> fmlookup (snd acc) k)" (is ?c)
proof -
  from assms have "?h \<and> ?c"
  proof (induction it acc rule: split_headers.induct)
    case (2 k1 v1 it hs0 chs0)
    then have n: "map_of it k1 = None" by (simp add: map_of_eq_None_iff image_iff)
    show ?case using 2 n by (cases "isContentHeader k1") (auto simp: Let_def split: option.split)
  qed simp
  then show ?h ?c by auto
qed

text \<open>The coding of a body, and the body as a visitor that decodes it reads it.\<close>

definition coding :: "HttpResponseData \<Rightarrow> EncodeType" where
  "coding rd = (case fmlookup (rsContentHeaders rd) ''Content-Encoding'' of
     Some e \<Rightarrow> (if e = ''br'' then EncodeBrotli else if e = ''gzip'' then EncodeGzip else EncodeNone)
   | None \<Rightarrow> EncodeNone)"

definition decoded :: "Formats \<Rightarrow> HttpResponseData \<Rightarrow> string option" where
  "decoded fmts rd = Decompress fmts (rsContent rd) (coding rd)"

lemma unpack_alt:
  "unpack fmts rd = map_option (\<lambda>dec. (coding rd, rd\<lparr>rsContent := dec\<rparr>)) (decoded fmts rd)"
  by (auto simp: unpack_def decoded_def coding_def Decompress_def Let_def split: option.split)

lemma rewriteBody_alt:
  "rewriteBody fmts re u rd = (case decoded fmts rd of
     None \<Rightarrow> (False, rd)
   | Some text \<Rightarrow> (case Compress fmts (re text u) (coding rd) of
       None \<Rightarrow> (False, rd\<lparr>rsContent := text\<rparr>)
     | Some body \<Rightarrow> (True, rd\<lparr>rsContent := body,
         rsContentHeaders := fmupd ''Content-Length'' (itoa (int (length body))) (rsContentHeaders rd)\<rparr>)))"
  by (simp add: rewriteBody_def unpack_alt split: option.split)

text \<open>A state the constructor builds compiled its pattern when it rewrites.\<close>

definition state_wf :: "tunnelState \<Rightarrow> bool" where
  "state_wf st \<longleftrightarrow> (stRewriteEnabled st \<longrightarrow> stRewriteRegex st \<noteq> None)"

lemma newTunnelState_wf: "newTunnelState compile ts = Some st \<Longrightarrow> state_wf st"
  by (auto simp: newTunnelState_def state_wf_def Let_def split: if_splits option.splits)

lemma setInfo_wf [simp]: "state_wf (setInfo info st) = state_wf st"
  by (simp add: setInfo_def state_wf_def)

lemma buildResponse_alt:
  assumes "state_wf st" "irBody resp = Some body"
  shows "buildResponse fmts it resp st = Some (let out = plain_response it resp body in
    if wants_rewrite st out then snd (rewriteBody fmts (the (stRewriteRegex st)) (url st) out) else out)"
  using assms by (auto simp: buildResponse_def state_wf_def wants_rewrite_def Let_def)

lemma plain_response_simps [simp]:
  "rsStatusCode (plain_response it resp body) = irStatus resp"
  "rsContent (plain_response it resp body) = body"
  "fmlookup (rsContentHeaders (plain_response it resp body)) ''Content-Length'' = Some (itoa (int (length body)))"
  by (simp_all add: plain_response_def split: prod.split)

lemma plain_response_headers:
  assumes "go_range it h"
  shows "fmlookup (rsHeaders (plain_response it resp body)) k =
      (if isContentHeader k then None else map_option (\<lambda>vs. join vs '','') (fmlookup h k))"
    and "k \<noteq> ''Content-Length'' \<Longrightarrow> fmlookup (rsContentHeaders (plain_response it resp body)) k =
      (if isContentHeader k then map_option (\<lambda>vs. join vs '','') (fmlookup h k) else None)"
proof -
  obtain hs chs where s: "split_headers it (fmempty, fmempty) = (hs, chs)" by fastforce
  note m = go_range_lookup [OF assms]
  note l = split_headers_lookup [OF go_range_keys [OF assms] s, unfolded m]
  show "fmlookup (rsHeaders (plain_response it resp body)) k =
      (if isContentHeader k then None else map_option (\<lambda>vs. join vs '','') (fmlookup h k))"
    using s l(1) [of k] by (simp add: plain_response_def split: option.splits)
  show "k \<noteq> ''Content-Length'' \<Longrightarrow> fmlookup (rsContentHeaders (plain_response it resp body)) k =
      (if isContentHeader k then map_option (\<lambda>vs. join vs '','') (fmlookup h k) else None)"
    using s l(2) [of k] by (simp add: plain_response_def split: option.splits)
qed

lemma rewriteBody_lossless:
  assumes "lossless fmts" "decoded fmts rd = Some text" "rewriteBody fmts re u rd = (ok, rd')"
  shows "ok" "decoded fmts rd' = Some (re text u)" "coding rd' = coding rd"
    "rsStatusCode rd' = rsStatusCode rd" "rsHeaders rd' = rsHeaders rd"
    "rsContentHeaders rd' = fmupd ''Content-Length'' (itoa (int (length (rsContent rd')))) (rsContentHeaders rd)"
proof -
  obtain body where b: "Compress fmts (re text u) (coding rd) = Some body"
      "Decompress fmts body (coding rd) = Some (re text u)"
    using compress_reads_back [OF assms(1)] by blast
  have r: "ok" "rd' = rd\<lparr>rsContent := body,
      rsContentHeaders := fmupd ''Content-Length'' (itoa (int (length body))) (rsContentHeaders rd)\<rparr>"
    using assms b by (simp_all add: rewriteBody_alt)
  then show "ok" "coding rd' = coding rd" "rsStatusCode rd' = rsStatusCode rd" "rsHeaders rd' = rsHeaders rd"
    "rsContentHeaders rd' = fmupd ''Content-Length'' (itoa (int (length (rsContent rd')))) (rsContentHeaders rd)"
    by (simp_all add: coding_def)
  then show "decoded fmts rd' = Some (re text u)" using r b by (simp add: decoded_def)
qed

lemma handle_command_logs:
  "handle_command i cmd st ls = (case handle_command i cmd st [] of (res, new) \<Rightarrow> (res, ls @ new))"
  by (simp add: handle_command_def Let_def split: option.split)

lemma handle_command_conv:
  assumes "handle_command i cmd st ls = (Inr reply, ls')"
  shows "cmdConv reply = cmdConv cmd" "cmdType reply = CmdHttpResponse"
  using assms by (auto simp: handle_command_def Let_def split: if_splits option.splits)

lemma trim_space_not_blank:
  assumes "c \<in> set s" "c \<notin> set ascii_space"
  shows "trim_space s \<noteq> []"
proof -
  obtain p where p: "s = p @ trim_left s ascii_space" "set p \<subseteq> set ascii_space"
    using trim_left_decomp by blast
  obtain q where q: "trim_left s ascii_space = trim_space s @ q" "set q \<subseteq> set ascii_space"
    using trim_right_decomp unfolding trim_space_def by blast
  have "set s = set p \<union> (set (trim_space s) \<union> set q)"
    using p(1) q(1) by (metis set_append)
  then show ?thesis using assms p(2) q(2) by auto
qed

lemma request_text_not_blank: "trim_space (marshal_request rq) \<noteq> []"
  by (rule trim_space_not_blank [of "CHR ''{''"])
    (simp_all add: marshal_request_def request_json_def ascii_space_def)

lemma request_frame:
  "request_ok rq \<Longrightarrow> valid_utf8 cid \<Longrightarrow>
   Unmarshal (Marshal \<lparr>cmdType = CmdHttpRequest, cmdConv = cid, cmdData = marshal_request rq\<rparr>) =
     Some \<lparr>cmdType = CmdHttpRequest, cmdConv = cid, cmdData = marshal_request rq\<rparr>"
  using request_codec.enc_text request_codec.kind_range by (intro command_codec.dec_enc) (simp add: command_ok_def)

lemma replay_frame:
  assumes "request_ok rq" "riUrlOk i (oqURL (build_request (stSettings st) (riOrder i (rqHeaders rq)) rq))"
    and "riLocal i (build_request (stSettings st) (riOrder i (rqHeaders rq)) rq) = Some resp"
    and "buildResponse (riFormats i) (riRespOrder i (irHeader resp)) resp st = Some rd"
  shows "handle_command i \<lparr>cmdType = CmdHttpRequest, cmdConv = cid, cmdData = marshal_request rq\<rparr> st ls =
    (Inr \<lparr>cmdType = CmdHttpResponse, cmdConv = cid, cmdData = marshal_response rd\<rparr>,
     ls @ [\<lparr>rlRequest = rq, rlResponse = rd\<rparr>])"
  using assms(2-4) by (simp add: handle_command_def request_text_not_blank request_codec.dec_enc assms(1))

text \<open>
  When the body cannot be compressed again, what is sent is the decompressed body under the
  encoding it no longer has; a method the replay does not know becomes \<open>GET\<close>.
\<close>

lemma failed_rewrite_leaves_plain:
  assumes "decoded fmts rd = Some text" "Compress fmts (re text u) (coding rd) = None"
  shows "rewriteBody fmts re u rd = (False, rd\<lparr>rsContent := text\<rparr>)"
  using assms by (simp add: rewriteBody_alt)

lemma patch_becomes_get: "methodOrGet ''PATCH'' = ''GET''" "methodOrGet ''HEAD'' = ''GET''"
  by (simp_all add: methodOrGet_def)

subsection \<open>Properties\<close>

text \<open>
  C26. The request replayed to the local service: its method (with everything but \<open>POST\<close>,
  \<open>PUT\<close> and \<open>DELETE\<close> turned into \<open>GET\<close>), URL and body, the host it names, and
  each of its headers: the custom value when the settings have one, no length or type of the
  visitor's own, the rest as forwarded, and the type of a body that is there. The order in which
  the map of headers is walked makes no difference.
\<close>

theorem replayed_request:
  assumes "go_range it (rqHeaders rq)" "fmpred (\<lambda>k v. canonical_key k = k) (rqHeaders rq)"
    and "q = build_request ts it rq"
  shows "oqMethod q = methodOrGet (rqMethod rq) \<and> oqURL q = CombineUrlPath (tsAddress ts) (rqPath rq) \<and>
    oqBody q = (if rqContent rq = [] then None else Some (rqContent rq)) \<and>
    oqHost q = (if fmlookup (rqHeaders rq) ''Host'' \<noteq> None \<and> trim_space (tsHostHeader ts) \<noteq> []
                then Some (tsHostHeader ts) else None) \<and>
    fmlookup (oqHeader q) k =
      (if k = ''Content-Type'' \<and> rqContent rq \<noteq> [] \<and> fmlookup (rqContentHeaders rq) k \<noteq> None
       then Some [the (fmlookup (rqContentHeaders rq) k)]
       else (case fmlookup (rqHeaders rq) k of Some v \<Rightarrow> replayed_header ts k v | None \<Rightarrow> None)) \<and>
    (go_range it' (rqHeaders rq) \<longrightarrow> build_request ts it' rq = q)"
proof -
  let ?ct = "fmlookup (rqContentHeaders rq) ''Content-Type''"
  define q0 where "q0 = \<lparr>oqMethod = methodOrGet (rqMethod rq), oqURL = CombineUrlPath (tsAddress ts) (rqPath rq),
      oqHost = None, oqHeader = fmempty, oqBody = (if rqContent rq \<noteq> [] then Some (rqContent rq) else None)\<rparr>"
  have q0s: "oqMethod q0 = methodOrGet (rqMethod rq)" "oqURL q0 = CombineUrlPath (tsAddress ts) (rqPath rq)"
      "oqBody q0 = (if rqContent rq = [] then None else Some (rqContent rq))"
    by (simp_all add: q0_def)
  have c: "canonical_key ''Content-Type'' = ''Content-Type''" by code_simp
  have b: "build_request ts j rq = (case ?ct of
      Some ct \<Rightarrow> if rqContent rq \<noteq> [] then header_loop ts j q0\<lparr>oqHeader := header_set ''Content-Type'' ct
          (oqHeader (header_loop ts j q0))\<rparr> else header_loop ts j q0
    | None \<Rightarrow> header_loop ts j q0)" for j
    unfolding build_request_def q0_def [symmetric] Let_def by (cases ?ct) simp_all
  have l: "fmlookup (oqHeader (header_loop ts j q0)) k = (case fmlookup (rqHeaders rq) k of
      Some v \<Rightarrow> replayed_header ts k v | None \<Rightarrow> None)"
    and h: "oqHost (header_loop ts j q0) = (if fmlookup (rqHeaders rq) ''Host'' \<noteq> None \<and> trim_space (tsHostHeader ts) \<noteq> []
                then Some (tsHostHeader ts) else None)"
    if "go_range j (rqHeaders rq)" for j k
  proof -
    have m: "map_of j = fmlookup (rqHeaders rq)" "distinct (map fst j)"
      using go_range_lookup [OF that] go_range_keys [OF that] by auto
    have "list_all (\<lambda>(k, v). canonical_key k = k) j"
      using assms(2) go_range_mem [OF that] by (auto simp: list_all_iff fmpred_iff)
    then show "fmlookup (oqHeader (header_loop ts j q0)) k = (case fmlookup (rqHeaders rq) k of
      Some v \<Rightarrow> replayed_header ts k v | None \<Rightarrow> None)"
      using header_loop_lookup [OF m(2), of q0 ts k] m(1) by (simp add: q0_def split: option.split)
    show "oqHost (header_loop ts j q0) = (if fmlookup (rqHeaders rq) ''Host'' \<noteq> None \<and> trim_space (tsHostHeader ts) \<noteq> []
                then Some (tsHostHeader ts) else None)"
      using map_of_eq_None_iff [of j "''Host''"] m(1) by (simp add: header_loop_host q0_def)
  qed
  have same: "header_loop ts it' q0 = header_loop ts it q0" if "go_range it' (rqHeaders rq)"
  proof -
    have "oqHeader (header_loop ts it' q0) = oqHeader (header_loop ts it q0)"
      by (rule fmap_ext) (simp add: l [OF that] l [OF assms(1)])
    then show ?thesis by (simp add: h [OF that] h [OF assms(1)])
  qed
  show ?thesis
    unfolding assms(3) b using same
    by (cases ?ct; cases "rqContent rq = []")
      (auto simp add: l [OF assms(1)] h [OF assms(1)] q0s header_set_def c)
qed

text \<open>
  C25. With compression formats that read back what they wrote, the response built from the local
  service's keeps its status and headers, declares the length of the body it carries, and a visitor
  that decodes the body reads the service's own text, with the tunnel's addresses rewritten when
  the tunnel asks for it and the text is HTML.
\<close>

theorem rewritten_response:
  assumes "lossless fmts" "state_wf st" "go_range it (irHeader resp)" "irBody resp = Some body"
    and "decoded fmts (plain_response it resp body) = Some text"
    and "buildResponse fmts it resp st = Some rd"
  shows "decoded fmts rd =
      Some (if wants_rewrite st (plain_response it resp body) then the (stRewriteRegex st) text (url st) else text) \<and>
    fmlookup (rsContentHeaders rd) ''Content-Length'' = Some (itoa (int (length (rsContent rd)))) \<and>
    rsStatusCode rd = irStatus resp \<and>
    fmlookup (rsHeaders rd) k =
      (if isContentHeader k then None else map_option (\<lambda>vs. join vs '','') (fmlookup (irHeader resp) k)) \<and>
    (k \<noteq> ''Content-Length'' \<longrightarrow> fmlookup (rsContentHeaders rd) k =
      (if isContentHeader k then map_option (\<lambda>vs. join vs '','') (fmlookup (irHeader resp) k) else None))"
proof (cases "wants_rewrite st (plain_response it resp body)")
  case True
  let ?p = "plain_response it resp body" and ?re = "the (stRewriteRegex st)"
  obtain ok rd' where r: "rewriteBody fmts ?re (url st) ?p = (ok, rd')" by fastforce
  have "rd = rd'" using assms(6) r True by (simp add: buildResponse_alt [OF assms(2,4)])
  then show ?thesis
    using rewriteBody_lossless [OF assms(1,5) r] True plain_response_headers [OF assms(3), where resp = resp and body = body and k = k] by simp
next
  case False
  then have "rd = plain_response it resp body"
    using assms(6) by (simp add: buildResponse_alt [OF assms(2,4)])
  then show ?thesis
    using False assms(5) plain_response_headers [OF assms(3), where resp = resp and body = body and k = k] by simp
qed

text \<open>
  C24. A request framed by the host is answered with one frame that the host unframes to the
  response built from the local service's, under the conversation id of the request; the pair is
  appended to the log, which nothing else changes.
\<close>

theorem replay_answers:
  assumes "request_ok rq" "valid_utf8 cid" "riUrlOk i (oqURL (build_request (stSettings st) (riOrder i (rqHeaders rq)) rq))"
    and "riLocal i (build_request (stSettings st) (riOrder i (rqHeaders rq)) rq) = Some resp"
    and "buildResponse (riFormats i) (riRespOrder i (irHeader resp)) resp st = Some rd" "response_ok rd"
  shows "\<exists>cmd reply. Unmarshal (Marshal \<lparr>cmdType = CmdHttpRequest, cmdConv = cid, cmdData = marshal_request rq\<rparr>) = Some cmd \<and>
    handle_command i cmd st ls = (Inr reply, ls @ [\<lparr>rlRequest = rq, rlResponse = rd\<rparr>]) \<and>
    do { c \<leftarrow> Unmarshal (Marshal reply); p \<leftarrow> unmarshal_response (cmdData c); Some (cmdType c, cmdConv c, p) } =
      Some (CmdHttpResponse, cid, rd)"
  using request_frame [OF assms(1,2)] replay_frame [OF assms(1,3,4,5), of cid ls]
    response_codec.open_frame [OF assms(6,2)] by blast

subsection \<open>A concrete replay\<close>

definition sample_formats :: Formats where
  "sample_formats = \<lparr>gzip_write = Some, gzip_read = Some, brotli_write = Some, brotli_read = Some\<rparr>"

definition sample_setting :: TunnelSetting where
  "sample_setting = \<lparr>tsSslEnabled = True, tsAllowInvalid = False, tsNtunlAddress = ''host.example:9000'',
     tsDesiredSubdomain = ''apple'', tsAddress = ''http://localhost:5000'', tsHostHeader = ''localhost:5000'',
     tsCustomHeader = fmap_of_list [(''X-From'', ''tunnel'')], tsRewriteEnabled = True,
     tsRewritePattern = ''http://localhost:5000''\<rparr>"

text \<open>An expression that matches the empty text at the end only.\<close>

definition sample_state :: tunnelState where
  "sample_state = setInfo \<lparr>niUrl = ''https://apple.example''\<rparr>
     (the (newTunnelState (\<lambda>p. Some (\<lambda>text u. text @ u)) sample_setting))"

definition sample_replay :: ReplayInput where
  "sample_replay = \<lparr>riFormats = sample_formats, riOrder = sorted_list_of_fmap, riRespOrder = sorted_list_of_fmap,
     riUrlOk = (\<lambda>u. True),
     riLocal = (\<lambda>q. Some \<lparr>irStatus = 200,
        irHeader = fmap_of_list [(''Content-Type'', [''text/html'']), (''Server'', [''s''])], irBody = Some ''<a>''\<rparr>)\<rparr>"

lemma sample_request_headers:
  "go_range [(''Host'', ''apple.example''), (''Accept'', ''*/*'')] (rqHeaders sample_request)"
  "fmpred (\<lambda>k v. canonical_key k = k) (rqHeaders sample_request)"
  by (simp add: go_range_def sample_request_def) code_simp

lemma replayed_request_witness:
  "fmlookup (oqHeader (build_request sample_setting [(''Host'', ''apple.example''), (''Accept'', ''*/*'')] sample_request))
     ''Accept'' = Some [''*/*'']"
proof -
  have "fmlookup (rqHeaders sample_request) ''Accept'' = Some ''*/*''"
    by (simp add: sample_request_def)
  moreover have "replayed_header sample_setting ''Accept'' ''*/*'' = Some [''*/*'']"
    by (simp add: replayed_header_def sample_setting_def)
  moreover have "''Accept'' \<noteq> ''Content-Type''" by simp
  ultimately show ?thesis
    using replayed_request [OF sample_request_headers refl, of sample_setting "''Accept''"]
    by (simp only: simp_thms if_False option.case)
qed

abbreviation sample_local :: InResponse where
  "sample_local \<equiv> \<lparr>irStatus = 200,
     irHeader = fmap_of_list [(''Content-Type'', [''text/html'']), (''Server'', [''s''])], irBody = Some ''<a>''\<rparr>"

abbreviation sample_built :: HttpResponseData where
  "sample_built \<equiv> \<lparr>rsStatusCode = 200, rsContent = ''<a>https://apple.example'',
     rsContentHeaders = fmap_of_list [(''Content-Length'', ''24''), (''Content-Type'', ''text/html'')],
     rsHeaders = fmap_of_list [(''Server'', ''s'')]\<rparr>"

lemma sample_response_built:
  "buildResponse sample_formats [(''Content-Type'', [''text/html'']), (''Server'', [''s''])] sample_local sample_state =
   Some sample_built"
  by code_simp

lemma sample_state_wf: "state_wf sample_state"
  by (simp add: sample_state_def newTunnelState_def sample_setting_def state_wf_def setInfo_def Let_def
      trim_space_def trim_left_def trim_right_def ascii_space_def)

lemma rewritten_response_witness:
  "decoded sample_formats sample_built = Some ''<a>https://apple.example'' \<and>
   fmlookup (rsContentHeaders sample_built) ''Content-Length'' = Some (itoa (int (length (rsContent sample_built))))"
proof -
  let ?it = "[(''Content-Type'', [''text/html'']), (''Server'', [''s''])]"
  have l: "lossless sample_formats" by (simp add: lossless_def sample_formats_def)
  have g: "go_range ?it (irHeader sample_local)" by (simp add: go_range_def)
  have b: "irBody sample_local = Some ''<a>''" by simp
  have d: "decoded sample_formats (plain_response ?it sample_local ''<a>'') = Some ''<a>''" by code_simp
  have w: "wants_rewrite sample_state (plain_response ?it sample_local ''<a>'')" by code_simp
  have r: "the (stRewriteRegex sample_state) ''<a>'' (url sample_state) = ''<a>https://apple.example''" by code_simp
  show ?thesis
    using rewritten_response [OF l sample_state_wf g b d sample_response_built, of "[]"]
    unfolding if_P [OF w] r by blast
qed

lemma sample_replay_built:
  "buildResponse (riFormats sample_replay) (riRespOrder sample_replay (irHeader sample_local)) sample_local sample_state
     = Some sample_built"
proof -
  have "sorted_list_of_fmap (irHeader sample_local) = [(''Content-Type'', [''text/html'']), (''Server'', [''s''])]"
    by code_simp
  then show ?thesis using sample_response_built by (simp add: sample_replay_def)
qed

lemma sample_built_ok: "response_ok sample_built" "valid_utf8 ''a-1''"
  by code_simp+

lemma replay_answers_witness:
  "\<exists>cmd reply. Unmarshal (Marshal \<lparr>cmdType = CmdHttpRequest, cmdConv = ''a-1'', cmdData = marshal_request sample_request\<rparr>) = Some cmd \<and>
    handle_command sample_replay cmd sample_state [] = (Inr reply, [\<lparr>rlRequest = sample_request, rlResponse = sample_built\<rparr>])"
  using replay_answers [OF samples_ok(1) sample_built_ok(2) _ _ sample_replay_built sample_built_ok(1), of "[]"]
  by (simp add: sample_replay_def) blast

end
