(* ===== verification/TunnelClient.thy ===== *)
theory TunnelClient
  imports ClientHandler
begin

text \<open>
  The client's connection to the host (\<open>internal/client/tunnel.go\<close>): dialing with retries,
  the outer loop that reconnects, and \<open>serve\<close> as a concurrent system of the read loop, the
  goroutines that answer requests and the pinger. The WebSocket library, the clock and the context
  appear as what a call or a \<open>select\<close> may give.
\<close>

subsection \<open>Constants and construction\<close>

definition maxRetries :: nat where "maxRetries = 10"
definition maxConcurrentRequests :: nat where "maxConcurrentRequests = 100"

record tunnelClient =
  tcState :: tunnelState
  tcToken :: string

definition newTunnelClient :: "(string \<Rightarrow> regex option) \<Rightarrow> TunnelSetting \<Rightarrow> string \<Rightarrow> tunnelClient option" where
  "newTunnelClient compile settings token = (case newTunnelState compile settings of
     None \<Rightarrow> None
   | Some st \<Rightarrow> Some \<lparr>tcState = st, tcToken = token\<rparr>)"

subsection \<open>\<open>connect\<close>\<close>

record DialOptions =
  doURL :: string
  doHeader :: http_header
  doInsecure :: bool

definition dial_options :: "tunnelClient \<Rightarrow> DialOptions" where
  "dial_options c =
     (let ts = stSettings (tcState c);
          scheme = (if tsSslEnabled ts then ''wss'' else ''ws'');
          h = header_set ''Authorization'' (''Bearer '' @ tcToken c) fmempty
      in \<lparr>doURL = scheme @ ''://'' @ tsNtunlAddress ts @ ''/'',
          doHeader = (if tsDesiredSubdomain ts \<noteq> [] then header_set ''Ntunl-Subdomain'' (tsDesiredSubdomain ts) h else h),
          doInsecure = (tsSslEnabled ts \<and> tsAllowInvalid ts)\<rparr>)"

datatype connect_error = ContextDone | DialError string

text \<open>
  What the attempts meet, by number: whether the context is done at the test of the loop, what
  dialing gives, and whether the wait after a failure ends because the context is done.
\<close>

record ConnectInput =
  diDone :: "nat \<Rightarrow> bool"
  diDial :: "DialOptions \<Rightarrow> nat \<Rightarrow> string + nat"
  diStop :: "nat \<Rightarrow> bool"

text \<open>The two results of \<open>connect\<close>, a connection and an error, each of which may be nil.\<close>

fun connect_loop :: "nat \<Rightarrow> DialOptions \<Rightarrow> ConnectInput \<Rightarrow> nat \<Rightarrow> connect_error option \<Rightarrow> nat option \<times> connect_error option" where
  "connect_loop 0 opts i attempt lastErr = (None, lastErr)"
| "connect_loop (Suc n) opts i attempt lastErr =
     (if diDone i attempt then (None, lastErr)
      else (case diDial i opts attempt of
              Inr conn \<Rightarrow> (Some conn, None)
            | Inl e \<Rightarrow>
                (if diStop i attempt then (None, Some ContextDone)
                 else connect_loop n opts i (Suc attempt) (Some (DialError e)))))"

definition connect :: "tunnelClient \<Rightarrow> ConnectInput \<Rightarrow> nat option \<times> connect_error option" where
  "connect c i = connect_loop maxRetries (dial_options c) i 1 None"

subsection \<open>\<open>run\<close>\<close>






subsection \<open>Messages\<close>

definition dispatchControl :: "Command \<Rightarrow> tunnelState \<Rightarrow> tunnelState" where
  "dispatchControl cmd st =
     (if cmdType cmd = CmdEcho then st
      else if cmdType cmd = CmdNtunlInfo
      then (case unmarshal_info (cmdData cmd) of None \<Rightarrow> st | Some info \<Rightarrow> setInfo info st)
      else st)"

text \<open>The frame one request is answered with, when there is one, and the log after it.\<close>

definition handleRequest :: "ReplayInput \<Rightarrow> Command \<Rightarrow> tunnelState \<Rightarrow> logs \<Rightarrow> string option \<times> logs" where
  "handleRequest i cmd st ls = (case handle_command i cmd st ls of
     (Inl e, ls') \<Rightarrow> (None, ls')
   | (Inr reply, ls') \<Rightarrow> (Some (Marshal reply), ls'))"

subsection \<open>\<open>serve\<close>: goroutines\<close>

text \<open>
  The goroutine of one request, with the request it was started for: running the handler; with the
  pair to retain; with its frame, waiting for the write lock; holding it; about to give its slot
  back; about to leave the wait group; gone.
\<close>

datatype worker =
    Handling Command
  | Answered Command Command RequestLog
  | Ready Command string
  | Locked Command string
  | Releasing Command
  | Leaving Command
  | Gone Command

text \<open>
  The read loop: reading; with a request, waiting for a slot; out of the loop; after
  \<open>cancel\<close>; waiting for the goroutines; returned. The pinger: waiting for the ticker;
  waiting for the answer to a ping; returned.
\<close>

datatype reader = Reading | Acquiring Command | Ended | Closing | Joining | Finished

datatype pinger = Idle | Pinging | Quit

record ServeState =
  ssState :: tunnelState
  ssLogs :: logs
  ssReader :: reader
  ssWorkers :: "worker list"
  ssSem :: nat
  ssWriter :: "nat option"
  ssPinger :: pinger
  ssCancelled :: bool
  ssClosed :: bool
  ssOutbox :: "(nat \<times> string) list"

text \<open>\<open>ssOutbox\<close> lists the frames written, each with the goroutine that wrote it.\<close>

definition serve_init :: "tunnelClient \<Rightarrow> logs \<Rightarrow> ServeState \<Rightarrow> bool" where
  "serve_init c ls s \<longleftrightarrow> s = \<lparr>ssState = tcState c, ssLogs = ls, ssReader = Reading, ssWorkers = [],
     ssSem = 0, ssWriter = None, ssPinger = Idle, ssCancelled = False, ssClosed = False, ssOutbox = []\<rparr>"

abbreviation worker_to :: "nat \<Rightarrow> worker \<Rightarrow> ServeState \<Rightarrow> ServeState" where
  "worker_to w ph s \<equiv> s\<lparr>ssWorkers := (ssWorkers s)[w := ph]\<rparr>"

definition worker_at :: "ServeState \<Rightarrow> nat \<Rightarrow> worker \<Rightarrow> bool" where
  "worker_at s w ph \<longleftrightarrow> w < length (ssWorkers s) \<and> ssWorkers s ! w = ph"

fun gone :: "worker \<Rightarrow> bool" where
  "gone (Gone cmd) = True" | "gone _ = False"

inductive serve_step :: "ServeState \<Rightarrow> ServeState \<Rightarrow> bool" where
  read_bad: "ssReader s = Reading \<Longrightarrow> Unmarshal data = None \<Longrightarrow> serve_step s s"
| read_request: "ssReader s = Reading \<Longrightarrow> Unmarshal data = Some cmd \<Longrightarrow> cmdType cmd = CmdHttpRequest \<Longrightarrow>
    serve_step s (s\<lparr>ssReader := Acquiring cmd\<rparr>)"
| read_control: "ssReader s = Reading \<Longrightarrow> Unmarshal data = Some cmd \<Longrightarrow> cmdType cmd \<noteq> CmdHttpRequest \<Longrightarrow>
    serve_step s (s\<lparr>ssState := dispatchControl cmd (ssState s)\<rparr>)"
| read_failed: "ssReader s = Reading \<Longrightarrow> serve_step s (s\<lparr>ssReader := Ended\<rparr>)"
| acquire: "ssReader s = Acquiring cmd \<Longrightarrow> ssSem s < maxConcurrentRequests \<Longrightarrow>
    serve_step s (s\<lparr>ssReader := Reading, ssSem := Suc (ssSem s), ssWorkers := ssWorkers s @ [Handling cmd]\<rparr>)"
| acquire_done: "ssReader s = Acquiring cmd \<Longrightarrow> ssCancelled s \<Longrightarrow> serve_step s (s\<lparr>ssReader := Ended\<rparr>)"
| context_done: "\<not> ssCancelled s \<Longrightarrow> serve_step s (s\<lparr>ssCancelled := True\<rparr>)"
| cancel: "ssReader s = Ended \<Longrightarrow> serve_step s (s\<lparr>ssReader := Closing, ssCancelled := True\<rparr>)"
| close: "ssReader s = Closing \<Longrightarrow> serve_step s (s\<lparr>ssReader := Joining, ssClosed := True\<rparr>)"
| join_all: "ssReader s = Joining \<Longrightarrow> list_all gone (ssWorkers s) \<Longrightarrow> ssPinger s = Quit \<Longrightarrow>
    serve_step s (s\<lparr>ssReader := Finished\<rparr>)"
| handled: "worker_at s w (Handling cmd) \<Longrightarrow> handle_command i cmd (ssState s) [] = (Inr reply, [entry]) \<Longrightarrow>
    serve_step s (worker_to w (Answered cmd reply entry) s)"
| handle_failed: "worker_at s w (Handling cmd) \<Longrightarrow> handle_command i cmd (ssState s) [] = (Inl e, []) \<Longrightarrow>
    serve_step s (worker_to w (Releasing cmd) s)"
| retain: "worker_at s w (Answered cmd reply entry) \<Longrightarrow>
    serve_step s (worker_to w (Ready cmd (Marshal reply)) (s\<lparr>ssLogs := ssLogs s @ [entry]\<rparr>))"
| lock: "worker_at s w (Ready cmd raw) \<Longrightarrow> ssWriter s = None \<Longrightarrow>
    serve_step s (worker_to w (Locked cmd raw) (s\<lparr>ssWriter := Some w\<rparr>))"
| written: "worker_at s w (Locked cmd raw) \<Longrightarrow>
    serve_step s (worker_to w (Releasing cmd) (s\<lparr>ssWriter := None, ssOutbox := ssOutbox s @ [(w, raw)]\<rparr>))"
| unwritten: "worker_at s w (Locked cmd raw) \<Longrightarrow>
    serve_step s (worker_to w (Releasing cmd) (s\<lparr>ssWriter := None\<rparr>))"
| release: "worker_at s w (Releasing cmd) \<Longrightarrow>
    serve_step s (worker_to w (Leaving cmd) (s\<lparr>ssSem := ssSem s - 1\<rparr>))"
| depart: "worker_at s w (Leaving cmd) \<Longrightarrow> serve_step s (worker_to w (Gone cmd) s)"
| tick: "ssPinger s = Idle \<Longrightarrow> serve_step s (s\<lparr>ssPinger := Pinging\<rparr>)"
| pong: "ssPinger s = Pinging \<Longrightarrow> \<not> ssCancelled s \<Longrightarrow> serve_step s (s\<lparr>ssPinger := Idle\<rparr>)"
| ping_failed: "ssPinger s = Pinging \<Longrightarrow>
    serve_step s (s\<lparr>ssPinger := Quit, ssClosed := (\<not> ssCancelled s \<or> ssClosed s)\<rparr>)"
| ping_done: "ssPinger s = Idle \<Longrightarrow> ssCancelled s \<Longrightarrow> serve_step s (s\<lparr>ssPinger := Quit\<rparr>)"

inductive_cases serve_step_cases: "serve_step s s'"

subsection \<open>Dialing\<close>

lemma connect_loop_result:
  "fst (connect_loop n opts i a e) = Some c \<longleftrightarrow>
     (\<exists>m<n. \<not> diDone i (a + m) \<and> diDial i opts (a + m) = Inr c \<and>
        (\<forall>m'<m. \<not> diDone i (a + m') \<and> \<not> diStop i (a + m') \<and> isl (diDial i opts (a + m'))))"
proof (induction n arbitrary: a e)
  case (Suc n)
  let ?ok = "\<lambda>m. \<not> diDone i (a + m) \<and> \<not> diStop i (a + m) \<and> isl (diDial i opts (a + m))"
  have split: "(\<exists>m<Suc n. P m) \<longleftrightarrow> P 0 \<or> (\<exists>m<n. P (Suc m))" for P
    using less_Suc_eq_0_disj by auto
  have all: "(\<forall>m'<Suc m. Q m') \<longleftrightarrow> Q 0 \<and> (\<forall>m'<m. Q (Suc m'))" for Q m
    using less_Suc_eq_0_disj by auto
  show ?case
    unfolding split all using Suc.IH [of "Suc a"] by (auto split: sum.split)
qed simp

lemma connect_loop_nil:
  "connect_loop n opts i a e = (None, None) \<longleftrightarrow> e = None \<and> (n = 0 \<or> diDone i a)"
proof (induction n arbitrary: a e)
  case (Suc n)
  then show ?case by (auto split: sum.split)
qed auto

lemma connect_nil: "connect c i = (None, None) \<longleftrightarrow> diDone i 1"
  unfolding connect_def connect_loop_nil by (simp add: maxRetries_def)







subsection \<open>Counting\<close>

fun slot :: "worker \<Rightarrow> nat" where
  "slot (Leaving cmd) = 0" | "slot (Gone cmd) = 0" | "slot _ = 1"

fun locked :: "worker \<Rightarrow> bool" where
  "locked (Locked cmd raw) = True" | "locked _ = False"

fun request_of :: "worker \<Rightarrow> Command" where
  "request_of (Handling cmd) = cmd" | "request_of (Answered cmd reply entry) = cmd"
| "request_of (Ready cmd raw) = cmd" | "request_of (Locked cmd raw) = cmd"
| "request_of (Releasing cmd) = cmd" | "request_of (Leaving cmd) = cmd" | "request_of (Gone cmd) = cmd"

text \<open>The frame a goroutine may write is a reply to the request it was started for.\<close>

definition replies_to :: "Command \<Rightarrow> string \<Rightarrow> bool" where
  "replies_to cmd raw \<longleftrightarrow> (\<exists>reply. raw = Marshal reply \<and> cmdType reply = CmdHttpResponse \<and> cmdConv reply = cmdConv cmd)"

fun frame_ok :: "worker \<Rightarrow> bool" where
  "frame_ok (Answered cmd reply entry) = replies_to cmd (Marshal reply)"
| "frame_ok (Ready cmd raw) = replies_to cmd raw"
| "frame_ok (Locked cmd raw) = replies_to cmd raw"
| "frame_ok _ = True"

fun past_write :: "worker \<Rightarrow> bool" where
  "past_write (Releasing cmd) = True" | "past_write (Leaving cmd) = True" | "past_write (Gone cmd) = True"
| "past_write _ = False"

definition slots_ok :: "ServeState \<Rightarrow> bool" where
  "slots_ok s \<longleftrightarrow> ssSem s = sum_list (map slot (ssWorkers s)) \<and> ssSem s \<le> maxConcurrentRequests"

definition lock_ok :: "ServeState \<Rightarrow> bool" where
  "lock_ok s \<longleftrightarrow> (\<forall>w. ssWriter s = Some w \<longleftrightarrow> w < length (ssWorkers s) \<and> locked (ssWorkers s ! w))"

definition outbox_ok :: "ServeState \<Rightarrow> bool" where
  "outbox_ok s \<longleftrightarrow> distinct (map fst (ssOutbox s)) \<and> list_all frame_ok (ssWorkers s) \<and>
     (\<forall>(w, raw)\<in>set (ssOutbox s). w < length (ssWorkers s) \<and> past_write (ssWorkers s ! w) \<and>
        replies_to (request_of (ssWorkers s ! w)) raw)"

definition end_ok :: "ServeState \<Rightarrow> bool" where
  "end_ok s \<longleftrightarrow> (ssReader s \<in> {Closing, Joining, Finished} \<longrightarrow> ssCancelled s) \<and>
     (ssReader s = Finished \<longrightarrow> list_all gone (ssWorkers s) \<and> ssPinger s = Quit)"

definition session_ok :: "ServeState \<Rightarrow> bool" where
  "session_ok s \<longleftrightarrow> slots_ok s \<and> lock_ok s \<and> outbox_ok s \<and> end_ok s"

text \<open>One goroutine of the list moves on.\<close>

lemma sum_slots: "w < length ws \<Longrightarrow> sum_list (map slot (ws[w := ph])) + slot (ws ! w) = sum_list (map slot ws) + slot ph"
  by (induction ws arbitrary: w) (auto split: nat.split)

lemma slots_move:
  assumes "slots_ok s" "worker_at s w ph" "ssWorkers s1 = ssWorkers s" "ssSem s1 = ssSem s + slot ph' - slot ph"
    and "slot ph' \<le> slot ph"
  shows "slots_ok (worker_to w ph' s1)"
proof -
  have w: "w < length (ssWorkers s)" "ssWorkers s ! w = ph" using assms(2) by (simp_all add: worker_at_def)
  show ?thesis
    using sum_slots [OF w(1), of ph'] assms(1,3-5) unfolding w(2) slots_ok_def by (simp, arith)
qed

lemma lock_move:
  assumes "lock_ok s" "worker_at s w ph" "ssWorkers s1 = ssWorkers s"
    and "ssWriter s1 = (if locked ph' then Some w else if locked ph then None else ssWriter s)"
    and "locked ph' \<Longrightarrow> ssWriter s = None"
  shows "lock_ok (worker_to w ph' s1)"
proof -
  have l: "ssWriter s = Some v \<longleftrightarrow> v < length (ssWorkers s) \<and> locked (ssWorkers s ! v)" for v
    using assms(1) unfolding lock_ok_def by blast
  have w: "w < length (ssWorkers s)" "ssWorkers s ! w = ph" using assms(2) by (simp_all add: worker_at_def)
  have "ssWriter (worker_to w ph' s1) = Some v \<longleftrightarrow>
      v < length (ssWorkers (worker_to w ph' s1)) \<and> locked (ssWorkers (worker_to w ph' s1) ! v)" for v
    using l [of v] l [of w] w assms(3-5) by (cases "v = w") (auto split: if_splits)
  then show ?thesis unfolding lock_ok_def by blast
qed

lemma outbox_move:
  assumes "outbox_ok s" "worker_at s w ph" "ssWorkers s1 = ssWorkers s"
    and "past_write ph \<longrightarrow> past_write ph'" "request_of ph' = request_of ph" "frame_ok ph \<longrightarrow> frame_ok ph'"
    and "ssOutbox s1 = ssOutbox s \<or> (\<exists>cmd raw. ph = Locked cmd raw \<and> past_write ph' \<and> ssOutbox s1 = ssOutbox s @ [(w, raw)])"
  shows "outbox_ok (worker_to w ph' s1)"
proof -
  have w: "w < length (ssWorkers s)" "ssWorkers s ! w = ph" using assms(2) by (simp_all add: worker_at_def)
  have o: "distinct (map fst (ssOutbox s))" "list_all frame_ok (ssWorkers s)"
    "\<And>v raw. (v, raw) \<in> set (ssOutbox s) \<Longrightarrow> v < length (ssWorkers s) \<and> past_write (ssWorkers s ! v) \<and>
        replies_to (request_of (ssWorkers s ! v)) raw"
    using assms(1) by (auto simp: outbox_ok_def)
  have ph: "frame_ok ph" using o(2) w by (auto simp: list_all_length)
  have frames: "list_all frame_ok ((ssWorkers s)[w := ph'])"
    using o(2) ph assms(6) w by (simp add: list_all_length nth_update)
  have old: "v < length (ssWorkers s) \<and> past_write ((ssWorkers s)[w := ph'] ! v) \<and>
      replies_to (request_of ((ssWorkers s)[w := ph'] ! v)) raw" if "(v, raw) \<in> set (ssOutbox s)" for v raw
    using o(3) [OF that] w assms(4,5) by (auto simp: nth_update)
  from assms(7) show ?thesis
  proof (elim disjE exE conjE)
    assume "ssOutbox s1 = ssOutbox s"
    then show ?thesis using o(1) frames old assms(3) by (auto simp: outbox_ok_def)
  next
    fix cmd raw assume n: "ph = Locked cmd raw" "past_write ph'" "ssOutbox s1 = ssOutbox s @ [(w, raw)]"
    then have "w \<notin> fst ` set (ssOutbox s)" using o(3) w by fastforce
    moreover have "replies_to (request_of ph') raw" using n ph assms(5) by simp
    ultimately show ?thesis
      using o(1) frames old assms(3) n w by (auto simp: outbox_ok_def)
  qed
qed

lemma end_move:
  assumes "end_ok s" "worker_at s w ph" "\<not> gone ph" "ssReader s1 = ssReader s" "ssCancelled s1 = ssCancelled s"
  shows "end_ok (worker_to w ph' s1)"
  using assms by (auto simp: end_ok_def worker_at_def list_all_length)

lemma session_move:
  assumes "session_ok s" "worker_at s w ph" "ssWorkers s1 = ssWorkers s" "\<not> gone ph"
    and "ssSem s1 = ssSem s + slot ph' - slot ph" "slot ph' \<le> slot ph"
    and "ssWriter s1 = (if locked ph' then Some w else if locked ph then None else ssWriter s)"
    and "locked ph' \<Longrightarrow> ssWriter s = None"
    and "past_write ph \<longrightarrow> past_write ph'" "request_of ph' = request_of ph" "frame_ok ph \<longrightarrow> frame_ok ph'"
    and "ssOutbox s1 = ssOutbox s \<or> (\<exists>cmd raw. ph = Locked cmd raw \<and> past_write ph' \<and> ssOutbox s1 = ssOutbox s @ [(w, raw)])"
    and "ssReader s1 = ssReader s" "ssCancelled s1 = ssCancelled s"
  shows "session_ok (worker_to w ph' s1)"
proof -
  have i: "slots_ok s" "lock_ok s" "outbox_ok s" "end_ok s" using assms(1) by (simp_all add: session_ok_def)
  show ?thesis
    unfolding session_ok_def
    by (intro conjI slots_move [OF i(1) assms(2,3,5,6)] lock_move [OF i(2) assms(2,3,7,8)]
        outbox_move [OF i(3) assms(2,3,9-12)] end_move [OF i(4) assms(2,4,13,14)])
qed

lemma session_same:
  assumes "session_ok s" "ssWorkers s' = ssWorkers s" "ssSem s' = ssSem s" "ssWriter s' = ssWriter s" "ssOutbox s' = ssOutbox s"
    "end_ok s'"
  shows "session_ok s'"
  using assms unfolding session_ok_def slots_ok_def lock_ok_def outbox_ok_def by simp

lemma session_new:
  assumes "session_ok s" "ssSem s < maxConcurrentRequests"
  shows "session_ok (s\<lparr>ssReader := Reading, ssSem := Suc (ssSem s), ssWorkers := ssWorkers s @ [Handling cmd]\<rparr>)"
proof -
  let ?s = "s\<lparr>ssReader := Reading, ssSem := Suc (ssSem s), ssWorkers := ssWorkers s @ [Handling cmd]\<rparr>"
  have "slots_ok ?s" using assms by (simp add: session_ok_def slots_ok_def)
  moreover have "ssWriter ?s = Some v \<longleftrightarrow> v < length (ssWorkers ?s) \<and> locked (ssWorkers ?s ! v)" for v
    using assms(1) unfolding session_ok_def lock_ok_def
    by (cases "v = length (ssWorkers s)") (simp_all add: nth_append less_Suc_eq)
  moreover have "outbox_ok ?s"
    using assms(1) by (fastforce simp: session_ok_def outbox_ok_def nth_append)
  ultimately show ?thesis by (simp add: session_ok_def lock_ok_def end_ok_def)
qed

lemma session_step: "serve_step s s' \<Longrightarrow> session_ok s \<Longrightarrow> session_ok s'"
proof (induction rule: serve_step.induct)
  case (acquire s cmd)
  then show ?case using session_new by blast
next
  case (handled s w cmd i reply entry)
  show ?case by (rule session_move [OF handled(3,1)]) (use handle_command_conv [OF handled(2)] in \<open>auto simp: replies_to_def\<close>)
next
  case (handle_failed s w cmd i e)
  show ?case by (rule session_move [OF handle_failed(3,1)]) simp_all
next
  case (retain s w cmd reply entry)
  show ?case by (rule session_move [OF retain(2,1)]) simp_all
next
  case (lock s w cmd raw)
  show ?case by (rule session_move [OF lock(3,1)]) (simp_all add: lock(2))
next
  case (written s w cmd raw)
  show ?case by (rule session_move [OF written(2,1)]) simp_all
next
  case (unwritten s w cmd raw)
  show ?case by (rule session_move [OF unwritten(2,1)]) simp_all
next
  case (release s w cmd)
  show ?case by (rule session_move [OF release(2,1)]) simp_all
next
  case (depart s w cmd)
  show ?case by (rule session_move [OF depart(2,1)]) simp_all
qed (rule session_same, assumption, (auto simp: session_ok_def end_ok_def)[5])+

subsection \<open>Returning\<close>

fun todo :: "worker \<Rightarrow> nat" where
  "todo (Handling cmd) = 6" | "todo (Answered cmd reply entry) = 5" | "todo (Ready cmd raw) = 4"
| "todo (Locked cmd raw) = 3" | "todo (Releasing cmd) = 2" | "todo (Leaving cmd) = 1" | "todo (Gone cmd) = 0"

fun ping_todo :: "pinger \<Rightarrow> nat" where
  "ping_todo Idle = 2" | "ping_todo Pinging = 1" | "ping_todo Quit = 0"

fun reader_todo :: "reader \<Rightarrow> nat" where
  "reader_todo Closing = 2" | "reader_todo Joining = 1" | "reader_todo _ = 0"

definition serve_work :: "ServeState \<Rightarrow> nat" where
  "serve_work s = sum_list (map todo (ssWorkers s)) + ping_todo (ssPinger s) + reader_todo (ssReader s)"

definition returned :: "ServeState \<Rightarrow> bool" where
  "returned s \<longleftrightarrow> ssReader s = Finished \<and> list_all gone (ssWorkers s) \<and> ssPinger s = Quit"

definition winding_down :: "ServeState \<Rightarrow> bool" where
  "winding_down s \<longleftrightarrow> ssReader s \<in> {Closing, Joining}"

lemma sum_todo: "w < length ws \<Longrightarrow> sum_list (map todo (ws[w := ph])) + todo (ws ! w) = sum_list (map todo ws) + todo ph"
  by (induction ws arbitrary: w) (auto split: nat.split)

lemma work_move:
  "worker_at s w ph \<Longrightarrow> todo ph' < todo ph \<Longrightarrow>
   sum_list (map todo ((ssWorkers s)[w := ph'])) < sum_list (map todo (ssWorkers s))"
  using sum_todo [of w "ssWorkers s" ph'] by (simp add: worker_at_def)

lemma serve_descent:
  assumes "session_ok s" "winding_down s" "serve_step s s'"
  shows "serve_work s' < serve_work s \<and> (winding_down s' \<or> returned s')"
proof -
  have c: "ssCancelled s" "ssReader s \<in> {Closing, Joining}"
    using assms(1,2) by (auto simp: session_ok_def end_ok_def winding_down_def)
  from assms(3) c have "serve_work s' < serve_work s"
    by (induction rule: serve_step.induct)
      (auto simp: serve_work_def intro: work_move)
  moreover from assms(3) c have "winding_down s' \<or> returned s'"
    by (induction rule: serve_step.induct) (auto simp: winding_down_def returned_def)
  ultimately show ?thesis by blast
qed

lemma handle_command_shape:
  "(\<exists>reply entry. handle_command i cmd st [] = (Inr reply, [entry])) \<or> (\<exists>e. handle_command i cmd st [] = (Inl e, []))"
  by (simp add: handle_command_def Let_def split: option.split)

lemma worker_step:
  assumes "session_ok s" "worker_at s w ph" "\<not> gone ph"
  shows "\<exists>s'. serve_step s s'"
proof (cases ph)
  case (Handling cmd)
  then show ?thesis
    using handle_command_shape [of undefined cmd "ssState s"] assms(2) handled handle_failed by metis
next
  case (Ready cmd raw)
  show ?thesis
  proof (cases "ssWriter s")
    case None
    then show ?thesis using lock assms(2) Ready by blast
  next
    case (Some v)
    then have "v < length (ssWorkers s)" "locked (ssWorkers s ! v)"
      using assms(1) by (auto simp: session_ok_def lock_ok_def)
    then obtain cmd' raw' where "worker_at s v (Locked cmd' raw')"
      by (cases "ssWorkers s ! v") (auto simp: worker_at_def)
    then show ?thesis using unwritten by blast
  qed
qed (use assms retain written release depart in \<open>(blast | simp)+\<close>)

lemma serve_progress:
  assumes "session_ok s" "winding_down s"
  shows "\<exists>s'. serve_step s s'"
proof (cases "list_all gone (ssWorkers s)")
  case True
  have c: "ssCancelled s" using assms by (auto simp: session_ok_def end_ok_def winding_down_def)
  show ?thesis
  proof (cases "ssReader s = Closing")
    case False
    then have "ssReader s = Joining" using assms(2) by (simp add: winding_down_def)
    then show ?thesis using True c join_all ping_failed ping_done by (cases "ssPinger s") blast+
  qed (use close in blast)
next
  case False
  then obtain w where "w < length (ssWorkers s)" "\<not> gone (ssWorkers s ! w)" by (auto simp: list_all_length)
  then show ?thesis using worker_step [OF assms(1)] by (simp add: worker_at_def)
qed

lemma session_init: "serve_init c ls s \<Longrightarrow> session_ok s"
  by (simp add: serve_init_def session_ok_def slots_ok_def lock_ok_def outbox_ok_def end_ok_def)

interpretation serving: winding_system "serve_init c ls" serve_step session_ok winding_down
    returned serve_work
  by unfold_locales (simp_all add: session_init session_step serve_progress serve_descent)

lemma working_count: "length (filter (\<lambda>ph. slot ph = 1) ws) = sum_list (map slot ws)"
proof (induction ws)
  case (Cons ph ws)
  then show ?case by (cases ph) auto
qed simp

subsection \<open>Properties\<close>

text \<open>
  C30. Connecting dials at most ten times: it gives the connection of the first attempt that
  succeeds, when the context lives until then; and it returns neither a connection nor an error
  exactly when the context is done before the first attempt.
\<close>

theorem connect_outcome:
  "(fst (connect c i) = Some conn \<longleftrightarrow>
     (\<exists>m<10. \<not> diDone i (Suc m) \<and> diDial i (dial_options c) (Suc m) = Inr conn \<and>
        (\<forall>m'<m. \<not> diDone i (Suc m') \<and> \<not> diStop i (Suc m') \<and> isl (diDial i (dial_options c) (Suc m'))))) \<and>
   (connect c i = (None, None) \<longleftrightarrow> diDone i 1)"
  using connect_loop_result [of 10 "dial_options c" i 1 None conn] connect_nil [of c i]
  by (simp add: connect_def maxRetries_def)


text \<open>
  C28. However the goroutines of a connection interleave, at most a hundred requests are in work at
  a time, and at most one goroutine is writing to the connection.
\<close>

theorem serve_bounds:
  assumes "reach (serve_init c ls) serve_step s"
  shows "length (filter (\<lambda>ph. slot ph = 1) (ssWorkers s)) \<le> 100 \<and>
    (worker_at s v (Locked cmd raw) \<longrightarrow> worker_at s w (Locked cmd' raw') \<longrightarrow> v = w)"
proof -
  have i: "slots_ok s" "lock_ok s" using serving.reachable_inv [OF assms] by (simp_all add: session_ok_def)
  have "worker_at s v (Locked cmd raw) \<Longrightarrow> ssWriter s = Some v"
    and "worker_at s w (Locked cmd' raw') \<Longrightarrow> ssWriter s = Some w"
    using i(2) by (simp_all add: lock_ok_def worker_at_def)
  then show ?thesis using i(1) unfolding working_count by (auto simp: slots_ok_def maxConcurrentRequests_def)
qed

text \<open>
  C29. Every frame written is the response to the request its goroutine was started for, under that
  request's conversation id, and no goroutine writes two.
\<close>

theorem one_answer_each:
  assumes "reach (serve_init c ls) serve_step s"
  shows "distinct (map fst (ssOutbox s)) \<and>
    list_all (\<lambda>(w, raw). w < length (ssWorkers s) \<and>
      (\<exists>reply. raw = Marshal reply \<and> cmdType reply = CmdHttpResponse \<and>
         cmdConv reply = cmdConv (request_of (ssWorkers s ! w)))) (ssOutbox s)"
  using serving.reachable_inv [OF assms]
  by (auto simp: session_ok_def outbox_ok_def replies_to_def list_all_iff)

text \<open>
  C27. Once the read loop is left, \<open>serve\<close> returns: it cancels the context, and from there
  every way the goroutines go on leads to its return, with each of them and the pinger gone.
\<close>

theorem serve_returns:
  assumes "reach (serve_init c ls) serve_step s" "ssReader s = Ended"
  shows "serve_step s (s\<lparr>ssReader := Closing, ssCancelled := True\<rparr>) \<and>
    inevitably serve_step returned (s\<lparr>ssReader := Closing, ssCancelled := True\<rparr>)"
proof
  show st: "serve_step s (s\<lparr>ssReader := Closing, ssCancelled := True\<rparr>)" using assms(2) by (rule cancel)
  show "inevitably serve_step returned (s\<lparr>ssReader := Closing, ssCancelled := True\<rparr>)"
    by (rule serving.reachable_inevitable [OF reach_step [OF assms(1) st]]) (simp add: winding_down_def)
qed

subsection \<open>A concrete session\<close>

definition sample_client :: tunnelClient where
  "sample_client = \<lparr>tcState = sample_state, tcToken = ''ntl_t''\<rparr>"

text \<open>The second attempt succeeds; the context is done after the connection was served.\<close>

definition sample_dials :: ConnectInput where
  "sample_dials = \<lparr>diDone = (\<lambda>n. False), diDial = (\<lambda>opts n. if n = 2 then Inr 7 else Inl ''refused''), diStop = (\<lambda>n. False)\<rparr>"

lemma connect_outcome_witness: "fst (connect sample_client sample_dials) = Some 7"
  using connect_outcome [of sample_client sample_dials 7]
  by (auto simp: sample_dials_def intro!: exI [of _ 1])

abbreviation sample_frame :: string where
  "sample_frame \<equiv> Marshal \<lparr>cmdType = CmdHttpRequest, cmdConv = ''a-1'', cmdData = marshal_request sample_request\<rparr>"

abbreviation sample_command :: Command where
  "sample_command \<equiv> \<lparr>cmdType = CmdHttpRequest, cmdConv = ''a-1'', cmdData = marshal_request sample_request\<rparr>"

abbreviation sample_reply :: Command where
  "sample_reply \<equiv> \<lparr>cmdType = CmdHttpResponse, cmdConv = ''a-1'', cmdData = marshal_response sample_built\<rparr>"

definition session0 :: ServeState where
  "session0 = \<lparr>ssState = sample_state, ssLogs = [], ssReader = Reading, ssWorkers = [],
     ssSem = 0, ssWriter = None, ssPinger = Idle, ssCancelled = False, ssClosed = False, ssOutbox = []\<rparr>"

text \<open>The session with one request, its reader and its goroutine as given.\<close>

definition session1 :: "reader \<Rightarrow> worker \<Rightarrow> logs \<Rightarrow> nat option \<Rightarrow> (nat \<times> string) list \<Rightarrow> ServeState" where
  "session1 r ph ls wr ob = session0\<lparr>ssReader := r, ssSem := 1, ssWorkers := [ph], ssLogs := ls, ssWriter := wr, ssOutbox := ob\<rparr>"

text \<open>One request, answered: the run for any frame the handler answers.\<close>

lemma answered_run:
  assumes "Unmarshal frame = Some cmd" "cmdType cmd = CmdHttpRequest"
    and "handle_command i cmd sample_state [] = (Inr reply, [entry])"
  shows "reach (serve_init sample_client []) serve_step
    (session1 Ended (Releasing cmd) [entry] None [(0, Marshal reply)])"
proof -
  let ?r = "reach (serve_init sample_client []) serve_step"
  let ?q = "session0\<lparr>ssReader := Acquiring cmd\<rparr>"
  note defs = session0_def session1_def worker_at_def maxConcurrentRequests_def
  have r0: "?r session0" by (rule reach_init) (simp add: serve_init_def sample_client_def session0_def)
  have "serve_step session0 ?q" by (rule read_request [OF _ assms(1,2)]) (simp add: session0_def)
  from reach_step [OF r0 this] have r1: "?r ?q" .
  have "serve_step ?q (session1 Reading (Handling cmd) [] None [])"
    using acquire [of ?q cmd] by (simp add: defs)
  from reach_step [OF r1 this] have r2: "?r (session1 Reading (Handling cmd) [] None [])" .
  have "serve_step (session1 Reading (Handling cmd) [] None []) (session1 Reading (Answered cmd reply entry) [] None [])"
    using handled [of "session1 Reading (Handling cmd) [] None []" 0 cmd i reply entry] assms(3) by (simp add: defs)
  from reach_step [OF r2 this] have r3: "?r (session1 Reading (Answered cmd reply entry) [] None [])" .
  have "serve_step (session1 Reading (Answered cmd reply entry) [] None [])
      (session1 Reading (Ready cmd (Marshal reply)) [entry] None [])"
    using retain [of "session1 Reading (Answered cmd reply entry) [] None []" 0 cmd reply entry] by (simp add: defs)
  from reach_step [OF r3 this] have r4: "?r (session1 Reading (Ready cmd (Marshal reply)) [entry] None [])" .
  have "serve_step (session1 Reading (Ready cmd (Marshal reply)) [entry] None [])
      (session1 Reading (Locked cmd (Marshal reply)) [entry] (Some 0) [])"
    using lock [of "session1 Reading (Ready cmd (Marshal reply)) [entry] None []" 0 cmd "Marshal reply"] by (simp add: defs)
  from reach_step [OF r4 this] have r5: "?r (session1 Reading (Locked cmd (Marshal reply)) [entry] (Some 0) [])" .
  have "serve_step (session1 Reading (Locked cmd (Marshal reply)) [entry] (Some 0) [])
      (session1 Reading (Releasing cmd) [entry] None [(0, Marshal reply)])"
    using written [of "session1 Reading (Locked cmd (Marshal reply)) [entry] (Some 0) []" 0 cmd "Marshal reply"]
    by (simp add: defs)
  from reach_step [OF r5 this] have r6: "?r (session1 Reading (Releasing cmd) [entry] None [(0, Marshal reply)])" .
  have "serve_step (session1 Reading (Releasing cmd) [entry] None [(0, Marshal reply)])
      (session1 Ended (Releasing cmd) [entry] None [(0, Marshal reply)])"
    using read_failed [of "session1 Reading (Releasing cmd) [entry] None [(0, Marshal reply)]"] by (simp add: defs)
  from reach_step [OF r6 this] show ?thesis .
qed

abbreviation session_end :: ServeState where
  "session_end \<equiv> session1 Ended (Releasing sample_command) [\<lparr>rlRequest = sample_request, rlResponse = sample_built\<rparr>]
     None [(0, Marshal sample_reply)]"

lemma sample_session: "reach (serve_init sample_client []) serve_step session_end"
proof (rule answered_run [OF request_frame [OF samples_ok(1) sample_built_ok(2)]])
  show "cmdType sample_command = CmdHttpRequest" by simp
  show "handle_command sample_replay sample_command sample_state [] =
      (Inr sample_reply, [\<lparr>rlRequest = sample_request, rlResponse = sample_built\<rparr>])"
    using replay_frame [OF samples_ok(1) _ _ sample_replay_built, of "''a-1''" "[]"] by (simp add: sample_replay_def)
qed

lemma serve_bounds_witness: "length (filter (\<lambda>ph. slot ph = 1) (ssWorkers session_end)) \<le> 100"
  using serve_bounds [OF sample_session] by blast

lemma one_answer_each_witness:
  "distinct (map fst (ssOutbox session_end)) \<and> snd (ssOutbox session_end ! 0) = Marshal sample_reply"
  using one_answer_each [OF sample_session] by (simp add: session1_def)

lemma serve_returns_witness:
  "inevitably serve_step returned (session_end\<lparr>ssReader := Closing, ssCancelled := True\<rparr>)"
  using serve_returns [OF sample_session] by (simp add: session1_def)

end
