(* ===== verification/EndToEnd.thy ===== *)
theory EndToEnd
  imports HttpServer TunnelClient
begin

text \<open>
  The two programs together: a visit to the host's public listener (\<open>httpserver.go\<close>) is framed
  to the client of that name (\<open>host/tunnel.go\<close>), replayed against the local service
  (\<open>client/handler.go\<close>), and the answer travels back to the visitor.
\<close>

subsection \<open>The client's turn\<close>

text \<open>
  What happens at the host while the visit waits: the client reads the last frame the host wrote,
  answers it, and the read pump of its connection takes the answer in.
\<close>

definition client_turn :: "ReplayInput \<Rightarrow> tunnelState \<Rightarrow> logs \<Rightarrow> TunnelHost \<Rightarrow> TunnelHost" where
  "client_turn i st ls h =
     (case Unmarshal (snd (last (outbox h))) of
        None \<Rightarrow> h
      | Some cmd \<Rightarrow>
          (if cmdType cmd \<noteq> CmdHttpRequest then h
           else (case handleRequest i cmd st ls of
                   (None, _) \<Rightarrow> h
                 | (Some raw, _) \<Rightarrow> (case pump_message raw h of None \<Rightarrow> h | Some h' \<Rightarrow> h'))))"

lemma decode_reply_frame:
  assumes "response_ok rd" "valid_utf8 cid"
  shows "decode_reply (Marshal \<lparr>cmdType = CmdHttpResponse, cmdConv = cid, cmdData = marshal_response rd\<rparr>) = Some (cid, rd)"
proof -
  have "command_ok \<lparr>cmdType = CmdHttpResponse, cmdConv = cid, cmdData = marshal_response rd\<rparr>"
    using assms response_codec.enc_text response_codec.kind_range by (simp add: command_ok_def)
  moreover have "marshal_response rd \<noteq> []" by (simp add: marshal_response_def response_json_def)
  ultimately show ?thesis
    by (simp add: decode_reply_def command_codec.dec_enc response_codec.dec_enc assms(1))
qed

lemma send_with_client:
  assumes "request_ok req" "valid_utf8 cid" "response_ok rd"
    and "handle_command i \<lparr>cmdType = CmdHttpRequest, cmdConv = cid, cmdData = marshal_request req\<rparr> st ls =
      (Inr \<lparr>cmdType = CmdHttpResponse, cmdConv = cid, cmdData = marshal_response rd\<rparr>, ls')"
  shows "fst (SendHttpRequest clock \<lparr>siUuid = cid, siWritten = True, siOthers = client_turn i st ls, siWake = Reply\<rparr> req p h)
    = Inr rd"
proof -
  define frame where "frame = Marshal \<lparr>cmdType = CmdHttpRequest, cmdConv = cid, cmdData = marshal_request req\<rparr>"
  define h2 where "h2 = h\<lparr>chans := chans h @ [None], pending := fmupd cid (length (chans h)) (pending h),
      outbox := outbox h @ [(ciConn (objs h ! p), frame)]\<rparr>"
  have b: "begin_request True cid req p h = (Inr (length (chans h)), h2)"
    by (simp add: begin_request_def open_pending_def send_def h2_def frame_def Let_def)
  have "client_turn i st ls h2 = put_chan (length (chans h)) rd (h2\<lparr>pending := fmdrop cid (pending h2)\<rparr>)"
    using assms(4) request_frame [OF assms(1,2)] decode_reply_frame [OF assms(3,2)]
    by (simp add: client_turn_def h2_def frame_def handleRequest_def pump_message_def take_pending_def)
  then have "chans (client_turn i st ls h2) ! length (chans h) = Some rd"
    by (simp add: put_chan_def h2_def)
  then show ?thesis by (simp add: SendHttpRequest_def b finish_request_def Let_def)
qed

subsection \<open>What the response built keeps\<close>

lemma buildResponse_keeps:
  assumes "state_wf st" "buildResponse fmts it resp st = Some rd" "irBody resp = Some body"
  shows "rsStatusCode rd = irStatus resp" "rsHeaders rd = rsHeaders (plain_response it resp body)"
    and "k \<noteq> ''Content-Length'' \<Longrightarrow>
      fmlookup (rsContentHeaders rd) k = fmlookup (rsContentHeaders (plain_response it resp body)) k"
    and "\<not> wants_rewrite st (plain_response it resp body) \<Longrightarrow> rsContent rd = body"
  using assms(2) unfolding buildResponse_alt [OF assms(1,3)]
  by (auto simp: Let_def rewriteBody_alt split: if_splits option.splits)

subsection \<open>Names that differ in case\<close>

lemma to_lower_canon_from: "to_lower (canon_from up s) = to_lower s"
proof (induction s arbitrary: up)
  case (Cons c s)
  then show ?case by (simp add: to_lower_def Let_def)
qed (simp add: to_lower_def)

lemma to_lower_canonical [simp]: "to_lower (canonical_key s) = to_lower s"
  by (simp add: canonical_key_def to_lower_canon_from)

lemma canonical_content_header: "canonical_key k = k' \<Longrightarrow> isContentHeader k = isContentHeader k'"
  using to_lower_canonical [of k] by (auto simp: isContentHeader_def)

lemma copy_headers_lookup:
  assumes "distinct (map fst it)" "list_all (\<lambda>(k, v). canonical_key k = k) it"
  shows "fmlookup (wHeader (copy_headers it w)) k =
    (case map_of it k of Some v \<Rightarrow> Some [v] | None \<Rightarrow> fmlookup (wHeader w) k)"
  using assms
proof (induction it arbitrary: w)
  case (Cons kv it)
  obtain k1 v1 where kv: "kv = (k1, v1)" by (cases kv)
  have n: "map_of it k1 = None" using Cons.prems kv by (simp add: map_of_eq_None_iff)
  have "fmlookup (wHeader (copy_headers it (set_header k1 v1 w))) k =
      (case map_of it k of Some v \<Rightarrow> Some [v] | None \<Rightarrow> fmlookup (wHeader (set_header k1 v1 w)) k)"
    by (rule Cons.IH) (use Cons.prems in auto)
  then show ?case
    using kv n Cons.prems by (auto simp: copy_headers_def header_set_def split: option.split)
qed (simp add: copy_headers_def)

lemma canonical_names: "canonical_key ''Content-Type'' = ''Content-Type''" "canonical_key ''Content-Encoding'' = ''Content-Encoding''"
    "canonical_key ''Content-Length'' = ''Content-Length''"
  by code_simp+

lemma content_names: "isContentHeader ''Content-Type''" "isContentHeader ''Content-Encoding''" "isContentHeader ''Content-Length''"
  by code_simp+

lemma response_writer_lookup:
  assumes "go_range it (rsHeaders resp)" "fmpred (\<lambda>k v. canonical_key k = k) (rsHeaders resp)"
  shows "fmlookup (wHeader (response_writer it resp w)) k =
    (if k = ''Content-Type'' then
       Some [case fmlookup (rsContentHeaders resp) k of Some ct \<Rightarrow> ct | None \<Rightarrow> ''application/octet-stream'']
     else if k = ''Content-Encoding'' \<and> fmlookup (rsContentHeaders resp) k \<noteq> None
     then Some [the (fmlookup (rsContentHeaders resp) k)]
     else (case fmlookup (rsHeaders resp) k of Some v \<Rightarrow> Some [v] | None \<Rightarrow> fmlookup (wHeader w) k))"
proof -
  have c: "list_all (\<lambda>(k, v). canonical_key k = k) it"
    using assms(2) go_range_mem [OF assms(1)] by (auto simp: list_all_iff fmpred_iff)
  have "''Content-Encoding'' \<noteq> ''Content-Type''" by simp
  then show ?thesis
    using copy_headers_lookup [OF go_range_keys [OF assms(1)] c, of w k] go_range_lookup [OF assms(1)]
    by (auto simp: response_writer_def header_set_def canonical_names Let_def split: option.split)
qed

subsection \<open>A visit that reaches the local service\<close>

text \<open>
  The visit \<open>r\<close> is for the name of a connected client, \<open>q\<close> is the request the client
  makes of it, the local service answers it with \<open>resp\<close>, and the client builds \<open>rd\<close>
  from that; names of headers are canonical, as \<open>net/http\<close> delivers them, and what is sent is
  valid UTF-8 text.
\<close>

definition reaches_service :: "HandleInput \<Rightarrow> HttpServer \<Rightarrow> Request \<Rightarrow> TunnelHost \<Rightarrow> ReplayInput \<Rightarrow> tunnelState \<Rightarrow> logs \<Rightarrow>
    OutRequest \<Rightarrow> InResponse \<Rightarrow> HttpResponseData \<Rightarrow> bool" where
  "reaches_service i s r h ri st ls q resp rd \<longleftrightarrow>
     (case (find_client i r h, rBody r) of
        (Some p, Some body) \<Rightarrow>
          (let req = make_request s (hiHeaders i) r body in
           request_ok req \<and> q = build_request (stSettings st) (riOrder ri (rqHeaders req)) req)
      | _ \<Rightarrow> False) \<and>
     valid_utf8 (siUuid (hiSend i)) \<and>
     hiSend i = \<lparr>siUuid = siUuid (hiSend i), siWritten = True, siOthers = client_turn ri st ls, siWake = Reply\<rparr> \<and>
     state_wf st \<and> riUrlOk ri (oqURL q) \<and> riLocal ri q = Some resp \<and>
     go_range (riRespOrder ri (irHeader resp)) (irHeader resp) \<and> fmpred (\<lambda>k v. canonical_key k = k) (irHeader resp) \<and>
     buildResponse (riFormats ri) (riRespOrder ri (irHeader resp)) resp st = Some rd \<and> response_ok rd \<and>
     go_range (hiResponse i (rsHeaders rd)) (rsHeaders rd) \<and>
     200 \<le> irStatus resp \<and> irStatus resp \<le> 999 \<and> body_allowed (irStatus resp)"

lemma reaches_build:
  assumes "reaches_service i s r h ri st ls q resp rd"
  obtains answer where "irBody resp = Some answer"
  using assms by (cases "irBody resp") (auto simp: reaches_service_def buildResponse_def)

lemma reaches_status:
  assumes "reaches_service i s r h ri st ls q resp rd"
  shows "response_status rd = irStatus resp"
proof -
  obtain answer where "irBody resp = Some answer" using reaches_build [OF assms] .
  then show ?thesis
    using assms buildResponse_keeps(1) by (auto simp: reaches_service_def response_status_def)
qed

lemma reaches_headers:
  assumes "reaches_service i s r h ri st ls q resp rd"
  shows "fmlookup (rsHeaders rd) k = (if isContentHeader k then None else map_option (\<lambda>vs. join vs '','') (fmlookup (irHeader resp) k))"
    and "k \<noteq> ''Content-Length'' \<Longrightarrow> fmlookup (rsContentHeaders rd) k =
      (if isContentHeader k then map_option (\<lambda>vs. join vs '','') (fmlookup (irHeader resp) k) else None)"
    and "fmpred (\<lambda>k v. canonical_key k = k) (rsHeaders rd)"
proof -
  obtain answer where a: "irBody resp = Some answer" using reaches_build [OF assms] .
  have r: "state_wf st" "buildResponse (riFormats ri) (riRespOrder ri (irHeader resp)) resp st = Some rd"
      "go_range (riRespOrder ri (irHeader resp)) (irHeader resp)" "fmpred (\<lambda>k v. canonical_key k = k) (irHeader resp)"
    using assms by (simp_all add: reaches_service_def)
  note keeps = buildResponse_keeps [OF r(1,2) a] and plain = plain_response_headers [OF r(3), where resp = resp and body = answer]
  show h: "fmlookup (rsHeaders rd) k = (if isContentHeader k then None else map_option (\<lambda>vs. join vs '','') (fmlookup (irHeader resp) k))" for k
    unfolding keeps(2) by (rule plain(1))
  show "k \<noteq> ''Content-Length'' \<Longrightarrow> fmlookup (rsContentHeaders rd) k =
      (if isContentHeader k then map_option (\<lambda>vs. join vs '','') (fmlookup (irHeader resp) k) else None)"
    using keeps(3) plain(2) by simp
  show "fmpred (\<lambda>k v. canonical_key k = k) (rsHeaders rd)"
    using r(4) by (auto simp: fmpred_iff h split: if_splits)
qed

lemma no_declared_length:
  assumes "reaches_service i s r h ri st ls q resp rd"
  shows "declared_length (wHeader (response_writer (hiResponse i (rsHeaders rd)) rd new_writer)) = None"
proof -
  have g: "go_range (hiResponse i (rsHeaders rd)) (rsHeaders rd)" using assms by (simp add: reaches_service_def)
  have "''Content-Length'' \<noteq> ''Content-Type''" "''Content-Length'' \<noteq> ''Content-Encoding''" by simp_all
  then have "fmlookup (wHeader (response_writer (hiResponse i (rsHeaders rd)) rd new_writer)) ''Content-Length'' = None"
    by (simp add: response_writer_lookup [OF g reaches_headers(3) [OF assms]] reaches_headers(1) [OF assms]
        content_names new_writer_def)
  then have "header_get (wHeader (response_writer (hiResponse i (rsHeaders rd)) rd new_writer)) ''Content-Length'' = []"
    by (simp add: header_get_def canonical_names)
  then show ?thesis by (simp add: declared_length_def parse_int_def)
qed

lemma visit_response:
  assumes "reaches_service i s r h ri st ls q resp rd"
  shows "fst (handle clock i s r new_writer h) = writeResponse (hiResponse i (rsHeaders rd)) rd new_writer"
proof -
  obtain p body where f: "find_client i r h = Some p" "rBody r = Some body"
    using assms by (auto simp: reaches_service_def split: option.splits)
  let ?req = "make_request s (hiHeaders i) r body"
  have q: "request_ok ?req" "q = build_request (stSettings st) (riOrder ri (rqHeaders ?req)) ?req"
    using assms f by (simp_all add: reaches_service_def Let_def)
  have o: "valid_utf8 (siUuid (hiSend i))" "riUrlOk ri (oqURL q)" "riLocal ri q = Some resp" "response_ok rd"
      "buildResponse (riFormats ri) (riRespOrder ri (irHeader resp)) resp st = Some rd"
      "hiSend i = \<lparr>siUuid = siUuid (hiSend i), siWritten = True, siOthers = client_turn ri st ls, siWake = Reply\<rparr>"
    using assms by (simp_all only: reaches_service_def)
  note cmd = replay_frame [OF q(1) o(2,3) [unfolded q(2)] o(5), of "siUuid (hiSend i)" ls]
  have "fst (SendHttpRequest clock (hiSend i) ?req p h) = Inr rd"
    using send_with_client [OF q(1) o(1,4) cmd] o(6) by metis
  then obtain h' where "SendHttpRequest clock (hiSend i) ?req p h = (Inr rd, h')"
    by (cases "SendHttpRequest clock (hiSend i) ?req p h") simp
  then show ?thesis by (simp add: handle_def f)
qed

subsection \<open>Properties\<close>

text \<open>
  C1. A visit that reaches a local service ends, through both programs, with the status the service
  answered and the body the client built from its answer: the service's own body, unless the tunnel
  rewrites its addresses.
\<close>

theorem visitor_served:
  assumes "reaches_service i s r h ri st ls q resp rd"
  shows "sent_status (fst (handle clock i s r new_writer h)) = Some (irStatus resp) \<and>
    wBody (fst (handle clock i s r new_writer h)) = rsContent rd \<and>
    (\<not> stRewriteEnabled st \<longrightarrow> irBody resp = Some (wBody (fst (handle clock i s r new_writer h))))"
proof -
  let ?v = "response_writer (hiResponse i (rsHeaders rd)) rd new_writer"
  have s: "200 \<le> irStatus resp" "irStatus resp \<le> 999" "body_allowed (irStatus resp)" "state_wf st"
      "buildResponse (riFormats ri) (riRespOrder ri (irHeader resp)) resp st = Some rd"
    using assms by (simp_all only: reaches_service_def)
  have f: "wSent ?v = None" "\<not> wPanicked ?v" "wBody ?v = []" by (simp_all add: new_writer_def)
  have w: "writeResponse (hiResponse i (rsHeaders rd)) rd new_writer =
      snd (Write (rsContent rd) (?v\<lparr>wSent := Some (irStatus resp, wHeader ?v)\<rparr>))"
    using s f by (simp add: writeResponse_alt reaches_status [OF assms] Let_def)
  have b: "wBody (snd (Write (rsContent rd) (?v\<lparr>wSent := Some (irStatus resp, wHeader ?v)\<rparr>))) = rsContent rd"
    using f s(3) no_declared_length [OF assms] by (simp add: Write_def Let_def)
  obtain answer where "irBody resp = Some answer" using reaches_build [OF assms] .
  moreover have "rsContent rd = answer" if "\<not> stRewriteEnabled st"
    using buildResponse_keeps(4) [OF s(4,5) calculation] that by (simp add: wants_rewrite_def)
  moreover have "sent_status (writeResponse (hiResponse i (rsHeaders rd)) rd new_writer) = Some (irStatus resp)"
    unfolding w sent_status_def by simp
  ultimately show ?thesis
    unfolding visit_response [OF assms] w b by simp
qed

text \<open>
  C32. The headers the visitor gets are those of the local service, each with its values joined by
  commas, except that of the headers about the content only its type and its encoding are passed
  on: the language, range, disposition, location, expiry and modification time are lost.
\<close>

theorem visitor_headers:
  assumes "reaches_service i s r h ri st ls q resp rd"
  shows "\<exists>hdr. wSent (fst (handle clock i s r new_writer h)) = Some (irStatus resp, hdr) \<and>
    fmlookup hdr k =
      (if k = ''Content-Type'' then
         Some [case fmlookup (irHeader resp) k of Some vs \<Rightarrow> join vs '','' | None \<Rightarrow> ''application/octet-stream'']
       else if isContentHeader k \<and> k \<noteq> ''Content-Encoding'' then None
       else map_option (\<lambda>vs. [join vs '','']) (fmlookup (irHeader resp) k))"
proof -
  let ?v = "response_writer (hiResponse i (rsHeaders rd)) rd new_writer"
  have s: "200 \<le> irStatus resp" "irStatus resp \<le> 999" "go_range (hiResponse i (rsHeaders rd)) (rsHeaders rd)"
    using assms by (simp_all only: reaches_service_def)
  have new_header: "fmlookup (wHeader new_writer) k = None" for k by (simp add: new_writer_def)
  note writer_lookup = response_writer_lookup [OF s(3) reaches_headers(3) [OF assms], of new_writer]
  have f: "wSent ?v = None" "\<not> wPanicked ?v" by (simp_all add: new_writer_def)
  have "wSent (writeResponse (hiResponse i (rsHeaders rd)) rd new_writer) = Some (irStatus resp, wHeader ?v)"
    using s f by (simp add: writeResponse_alt reaches_status [OF assms] Let_def)
  moreover have "fmlookup (wHeader ?v) k =
      (if k = ''Content-Type'' then
         Some [case fmlookup (irHeader resp) k of Some vs \<Rightarrow> join vs '','' | None \<Rightarrow> ''application/octet-stream'']
       else if isContentHeader k \<and> k \<noteq> ''Content-Encoding'' then None
       else map_option (\<lambda>vs. [join vs '','']) (fmlookup (irHeader resp) k))"
  proof (cases "k = ''Content-Type''")
    case True
    have l: "fmlookup (rsContentHeaders rd) ''Content-Type'' =
        map_option (\<lambda>vs. join vs '','') (fmlookup (irHeader resp) ''Content-Type'')"
      by (simp add: reaches_headers(2) [OF assms] content_names)
    show ?thesis unfolding writer_lookup True l by (simp split: option.split)
  next
    case False
    then show ?thesis
    proof (cases "k = ''Content-Encoding''")
      case True
      have "fmlookup (rsContentHeaders rd) ''Content-Encoding'' =
          map_option (\<lambda>vs. join vs '','') (fmlookup (irHeader resp) ''Content-Encoding'')"
        by (simp add: reaches_headers(2) [OF assms] content_names)
      moreover have "fmlookup (rsHeaders rd) ''Content-Encoding'' = None"
        by (simp add: reaches_headers(1) [OF assms] content_names)
      ultimately show ?thesis
        unfolding writer_lookup True by (cases "fmlookup (irHeader resp) ''Content-Encoding''") (simp_all add: new_writer_def)
    qed (simp add: writer_lookup reaches_headers(1) [OF assms] new_header split: option.split)
  qed
  ultimately show ?thesis by (simp only: visit_response [OF assms]) blast
qed

subsection \<open>A concrete visit\<close>

definition tunnel_input :: HandleInput where
  "tunnel_input = sample_input\<lparr>hiSend := \<lparr>siUuid = ''a-1'', siWritten = True,
     siOthers = client_turn sample_replay sample_state [], siWake = Reply\<rparr>\<rparr>"

abbreviation visit_request :: HttpRequestData where
  "visit_request \<equiv> make_request (NewHttpServer sample_http_cfg) (hiHeaders tunnel_input) sample_visit []"

abbreviation visit_replay :: OutRequest where
  "visit_replay \<equiv> build_request (stSettings sample_state) (riOrder sample_replay (rqHeaders visit_request)) visit_request"

lemma visit_reaches:
  "reaches_service tunnel_input (NewHttpServer sample_http_cfg) sample_visit sample_host sample_replay sample_state []
     visit_replay sample_local sample_built"
proof -
  have hc: "hiClients tunnel_input = hiClients sample_input" by (simp add: tunnel_input_def)
  have c: "find_client tunnel_input sample_visit sample_host = Some 0"
    using sample_client unfolding find_client_def hc .
  have "request_ok (make_request (NewHttpServer sample_http_cfg) (hiHeaders sample_input) sample_visit [])" by code_simp
  then have ok: "request_ok visit_request" by (simp add: tunnel_input_def)
  have b: "rBody sample_visit = Some []" by (simp add: sample_visit_def)
  have "sorted_list_of_fmap (irHeader sample_local) = [(''Content-Type'', [''text/html'']), (''Server'', [''s''])]"
    by code_simp
  then have g1: "go_range (riRespOrder sample_replay (irHeader sample_local)) (irHeader sample_local)"
    by (simp add: sample_replay_def go_range_def)
  have "sorted_list_of_fmap (rsHeaders sample_built) = [(''Server'', ''s'')]" by code_simp
  then have g2: "go_range (hiResponse tunnel_input (rsHeaders sample_built)) (rsHeaders sample_built)"
    by (simp add: tunnel_input_def sample_input_def go_range_def)
  have k: "fmpred (\<lambda>k v. canonical_key k = k) (irHeader sample_local)" by code_simp
  have l: "riLocal sample_replay visit_replay = Some sample_local" "riUrlOk sample_replay (oqURL visit_replay)"
    by (simp_all only: sample_replay_def ReplayInput.simps)
  have s: "siUuid (hiSend tunnel_input) = ''a-1''" "hiSend tunnel_input = \<lparr>siUuid = ''a-1'', siWritten = True,
     siOthers = client_turn sample_replay sample_state [], siWake = Reply\<rparr>" by (simp_all add: tunnel_input_def)
  have st: "(200::int) \<le> irStatus sample_local" "irStatus sample_local \<le> 999" "body_allowed (irStatus sample_local)"
    by (simp_all add: body_allowed_def)
  show ?thesis
    unfolding reaches_service_def c b s(1) using ok s(2) sample_built_ok sample_state_wf l g1 g2 k sample_replay_built st
    by (simp only: option.case prod.case Let_def simp_thms)
qed

lemma visitor_served_witness:
  "sent_status (fst (handle 9 tunnel_input (NewHttpServer sample_http_cfg) sample_visit new_writer sample_host)) = Some 200 \<and>
   wBody (fst (handle 9 tunnel_input (NewHttpServer sample_http_cfg) sample_visit new_writer sample_host)) =
     ''<a>https://apple.example''"
  using visitor_served [OF visit_reaches, of 9] by simp

lemma visitor_headers_witness:
  "\<exists>hdr. wSent (fst (handle 9 tunnel_input (NewHttpServer sample_http_cfg) sample_visit new_writer sample_host)) = Some (200, hdr) \<and>
     fmlookup hdr ''Content-Type'' = Some [''text/html'']"
  using visitor_headers [OF visit_reaches, of 9 "''Content-Type''"] by simp

end
