(* ===== verification/Portal.thy ===== *)
theory Portal
  imports TunnelHost
begin

text \<open>
  The portal (\<open>internal/host/portal\<close>): its routes, the handlers behind the guards, and the
  pages they render. A page is the data its template receives; executing the template and
  formatting a time in the local zone are arguments, as are the live view of the tunnel host and
  the order in which its client map is walked. Log lines are left out. Paths are taken as the
  browser sends them, without escapes and already clean.
\<close>

subsection \<open>Rows and pages\<close>

record subdomainRow =
  srName :: string
  srURL :: string
  srOnline :: bool
  srRemoteAddr :: string
  srConnectedAt :: string
  srRequests :: "64 word"

record requestRow =
  rrTime :: string
  rrMethod :: string
  rrPath :: string
  rrStatus :: int

record tokenRow =
  trID :: int
  trName :: string
  trCreated :: string
  trLastUsed :: string
  trRevoked :: bool

record adminTunnelRow =
  arUsername :: string
  arSubdomain :: string
  arRemoteAddr :: string
  arConnectedAt :: string
  arRequests :: "64 word"

text \<open>The data of each page; the last two arguments are the error and the confirmation shown.\<close>

datatype page =
    LoginPage string
  | DashboardPage User "subdomainRow list" "requestRow list" string string
  | TokensPage User "tokenRow list" string string
  | UsersPage "User option" "User list" string string
  | TunnelsPage "User option" "adminTunnelRow list"

record Portal =
  pDomain :: string
  pPort :: int
  pSecure :: bool

record View =
  live :: TunnelHost
  order :: "(string \<times> nat option) list"
  execute :: "page \<Rightarrow> string"
  format_time :: "string \<Rightarrow> int \<Rightarrow> string"

definition New :: "string \<Rightarrow> int \<Rightarrow> bool \<Rightarrow> Portal" where
  "New domain port secure = \<lparr>pDomain = domain, pPort = port, pSecure = secure\<rparr>"

subsection \<open>Helpers (\<open>view.go\<close>, \<open>portal.go\<close>)\<close>

definition page_names :: "string list" where
  "page_names = [''login'', ''dashboard'', ''tokens'', ''admin_users'', ''admin_tunnels'']"

definition render :: "View \<Rightarrow> string \<Rightarrow> page \<Rightarrow> Writer \<Rightarrow> Writer" where
  "render v name data w =
     (if name \<notin> set page_names then Error (''unknown page: '' @ name) StatusInternalServerError w
      else snd (Write (execute v data) (set_header ''Content-Type'' ''text/html; charset=utf-8'' w)))"

definition publicURL :: "string \<Rightarrow> string \<Rightarrow> string" where
  "publicURL domain subdomain =
     (if domain = [] then subdomain else ''https://'' @ subdomain @ ''.'' @ domain)"

text \<open>\<open>shortTime\<close> on a stored second, or on the column that is still empty.\<close>

definition shortTime :: "View \<Rightarrow> int option \<Rightarrow> string" where
  "shortTime v rfc = (case rfc of
     None \<Rightarrow> [CHR 0xE2, CHR 0x80, CHR 0x94]
   | Some s \<Rightarrow> format_time v ''2006-01-02 15:04'' (s * second))"

definition setSessionCookie :: "Portal \<Rightarrow> Env \<Rightarrow> int \<Rightarrow> reply \<Rightarrow> bool \<times> reply" where
  "setSessionCookie p e uid s =
     (case NewSessionID e of
        None \<Rightarrow> (False, s)
      | Some sid \<Rightarrow>
          (case CreateSession (now e) (fst s) sid uid SessionTTL of
             (Inl _, d) \<Rightarrow> (False, (d, snd s))
           | (Inr _, d) \<Rightarrow>
               (True, (d, SetCookie \<lparr>ckName = SessionCookieName, ckValue = sid, ckPath = ''/'',
                  ckHttpOnly = True, ckSecure = pSecure p, ckSameSiteLax = True,
                  ckExpires = Some (now e + SessionTTL), ckMaxAge = 0\<rparr> (snd s)))))"

subsection \<open>Signing in (\<open>handlers_auth.go\<close>)\<close>

definition handleLoginForm :: "Portal \<Rightarrow> View \<Rightarrow> handler" where
  "handleLoginForm p v e ctx r s = (fst s, render v ''login'' (LoginPage []) (snd s))"

definition handleLoginSubmit :: "Portal \<Rightarrow> View \<Rightarrow> handler" where
  "handleLoginSubmit p v e ctx r s =
     (let username = FormValue r ''username''; password = FormValue r ''password'' in
      case GetUserByUsername (fst s) username of
        (Inl _, d) \<Rightarrow> (d, render v ''login'' (LoginPage ''Invalid username or password.'') (snd s))
      | (Inr user, d) \<Rightarrow>
          (if userDisabled user \<or> \<not> CheckPassword e (userHash user) password
           then (d, render v ''login'' (LoginPage ''Invalid username or password.'') (snd s))
           else
             (case setSessionCookie p e (userID user) (d, snd s) of
                (False, s') \<Rightarrow> (fst s', Error ''internal error'' StatusInternalServerError (snd s'))
              | (True, s') \<Rightarrow> (fst s', Redirect r ''/'' StatusSeeOther (snd s')))))"

definition handleLogout :: "Portal \<Rightarrow> View \<Rightarrow> handler" where
  "handleLogout p v e ctx r s =
     (let d = (case Cookie r SessionCookieName of
                 Some c \<Rightarrow> snd (DeleteSession (fst s) c) | None \<Rightarrow> fst s)
      in (d, Redirect r ''/login'' StatusSeeOther
               (SetCookie \<lparr>ckName = SessionCookieName, ckValue = [], ckPath = ''/'', ckHttpOnly = False,
                  ckSecure = False, ckSameSiteLax = False, ckExpires = None, ckMaxAge = - 1\<rparr> (snd s))))"

text \<open>The body of an API login, decoded into a struct of three strings.\<close>

record LoginBody =
  lbUsername :: string
  lbPassword :: string
  lbName :: string

definition set_login :: "LoginBody \<Rightarrow> string \<Rightarrow> json \<Rightarrow> LoginBody option" where
  "set_login b k j =
     (if same_field k ''username'' then map_option (\<lambda>x. b\<lparr>lbUsername := x\<rparr>) (set_string (lbUsername b) j)
      else if same_field k ''password'' then map_option (\<lambda>x. b\<lparr>lbPassword := x\<rparr>) (set_string (lbPassword b) j)
      else if same_field k ''name'' then map_option (\<lambda>x. b\<lparr>lbName := x\<rparr>) (set_string (lbName b) j)
      else Some b)"

definition decode_login :: "string option \<Rightarrow> LoginBody option" where
  "decode_login body = do {
     text \<leftarrow> body;
     j \<leftarrow> decode_first text;
     decode_struct set_login \<lparr>lbUsername = [], lbPassword = [], lbName = []\<rparr> j
   }"

definition json_error :: "string \<Rightarrow> string" where
  "json_error msg = ''{'' @ [CHR 0x22] @ ''error'' @ [CHR 0x22] @ '':'' @ [CHR 0x22] @ msg @ [CHR 0x22] @ ''}''"

text \<open>The encoder writes the members of the map in the order of their keys.\<close>

definition login_answer :: "string \<Rightarrow> User \<Rightarrow> string" where
  "login_answer plaintext user = print_json (JObj
     [(''role'', JStr (userRole user)), (''token'', JStr plaintext), (''username'', JStr (userName user))])
     @ [CHR 0x0A]"

definition handleAPILogin :: "Portal \<Rightarrow> View \<Rightarrow> handler" where
  "handleAPILogin p v e ctx r s =
     (case decode_login (rBody r) of
        None \<Rightarrow> (fst s, Error (json_error ''bad request'') StatusBadRequest (snd s))
      | Some req \<Rightarrow>
          (case GetUserByUsername (fst s) (lbUsername req) of
             (Inl _, d) \<Rightarrow> (d, Error (json_error ''invalid credentials'') StatusUnauthorized (snd s))
           | (Inr user, d) \<Rightarrow>
               (if userDisabled user \<or> \<not> CheckPassword e (userHash user) (lbPassword req)
                then (d, Error (json_error ''invalid credentials'') StatusUnauthorized (snd s))
                else
                  (case GenerateToken e of
                     None \<Rightarrow> (d, Error (json_error ''internal error'') StatusInternalServerError (snd s))
                   | Some (plaintext, hash) \<Rightarrow>
                       (let name = (if lbName req = [] then ''cli'' else lbName req) in
                        case CreateToken (now e) d (userID user) name hash of
                          (Inl _, d1) \<Rightarrow> (d1, Error (json_error ''internal error'') StatusInternalServerError (snd s))
                        | (Inr _, d1) \<Rightarrow>
                            (d1, snd (Write (login_answer plaintext user)
                                   (set_header ''Content-Type'' ''application/json'' (snd s)))))))))"

subsection \<open>The user's pages (\<open>handlers_user.go\<close>)\<close>

text \<open>A handler of these that ran without a user would dereference nil.\<close>

definition nil_user :: "Writer \<Rightarrow> Writer" where
  "nil_user w = w\<lparr>wPanicked := True\<rparr>"

definition subdomain_row :: "Portal \<Rightarrow> View \<Rightarrow> LiveTunnel \<Rightarrow> subdomainRow" where
  "subdomain_row p v lt = \<lparr>srName = ltSubdomain lt, srURL = publicURL (pDomain p) (ltSubdomain lt),
     srOnline = True, srRemoteAddr = ltRemoteAddr lt,
     srConnectedAt = format_time v ''2006-01-02 15:04:05'' (ltConnectedAt lt), srRequests = ltRequests lt\<rparr>"

definition request_row :: "View \<Rightarrow> LiveRequest \<Rightarrow> requestRow" where
  "request_row v lr = \<lparr>rrTime = format_time v ''15:04:05'' (lrTime lr), rrMethod = lrMethod lr,
     rrPath = lrPath lr, rrStatus = lrStatus lr\<rparr>"

definition renderDashboard :: "Portal \<Rightarrow> View \<Rightarrow> User option \<Rightarrow> string \<Rightarrow> string \<Rightarrow> Writer \<Rightarrow> Writer" where
  "renderDashboard p v ctx errMsg okMsg w = (case ctx of
     None \<Rightarrow> nil_user w
   | Some user \<Rightarrow>
       render v ''dashboard''
         (DashboardPage user
            (map (subdomain_row p v) (ActiveByUser (live v) (order v) (userID user)))
            (map (request_row v) (RecentRequests (live v) (userID user) 25)) errMsg okMsg) w)"

definition handleDashboard :: "Portal \<Rightarrow> View \<Rightarrow> handler" where
  "handleDashboard p v e ctx r s = (fst s, renderDashboard p v ctx [] [] (snd s))"

definition token_row :: "View \<Rightarrow> Token \<Rightarrow> tokenRow" where
  "token_row v t = \<lparr>trID = tokID t, trName = tokName t, trCreated = shortTime v (Some (tokCreated t)),
     trLastUsed = shortTime v (tokLastUsed t), trRevoked = tokRevoked t\<rparr>"

definition renderTokens :: "Portal \<Rightarrow> View \<Rightarrow> User option \<Rightarrow> string \<Rightarrow> string \<Rightarrow> reply \<Rightarrow> reply" where
  "renderTokens p v ctx newToken errMsg s = (case ctx of
     None \<Rightarrow> (fst s, nil_user (snd s))
   | Some user \<Rightarrow>
       (case ListTokens (fst s) (userID user) of
          (res, d) \<Rightarrow>
            (d, render v ''tokens''
                  (TokensPage user (map (token_row v) (case res of Inl _ \<Rightarrow> [] | Inr ts \<Rightarrow> ts)) newToken errMsg)
                  (snd s))))"

definition handleTokens :: "Portal \<Rightarrow> View \<Rightarrow> handler" where
  "handleTokens p v e ctx r s = renderTokens p v ctx [] [] s"

definition handleCreateToken :: "Portal \<Rightarrow> View \<Rightarrow> handler" where
  "handleCreateToken p v e ctx r s = (case ctx of
     None \<Rightarrow> (fst s, nil_user (snd s))
   | Some user \<Rightarrow>
       (let name = (if FormValue r ''name'' = [] then ''token'' else FormValue r ''name'') in
        case GenerateToken e of
          None \<Rightarrow> renderTokens p v ctx [] ''Could not generate token.'' s
        | Some (plaintext, hash) \<Rightarrow>
            (case CreateToken (now e) (fst s) (userID user) name hash of
               (Inl _, d) \<Rightarrow> renderTokens p v ctx [] ''Could not save token.'' (d, snd s)
             | (Inr _, d) \<Rightarrow> renderTokens p v ctx plaintext [] (d, snd s))))"

definition handleRevokeToken :: "Portal \<Rightarrow> View \<Rightarrow> handler" where
  "handleRevokeToken p v e ctx r s = (case parse_int (rPathID r) of
     None \<Rightarrow> (fst s, Redirect r ''/tokens'' StatusSeeOther (snd s))
   | Some i \<Rightarrow>
       (case ctx of
          None \<Rightarrow> (fst s, nil_user (snd s))
        | Some user \<Rightarrow>
            (snd (RevokeToken (fst s) i (userID user)), Redirect r ''/tokens'' StatusSeeOther (snd s))))"

definition handleChangePassword :: "Portal \<Rightarrow> View \<Rightarrow> handler" where
  "handleChangePassword p v e ctx r s = (case ctx of
     None \<Rightarrow> (fst s, nil_user (snd s))
   | Some user \<Rightarrow>
       (let current = FormValue r ''current_password'';
            nxt = FormValue r ''new_password'';
            confirm = FormValue r ''confirm_password'' in
        if \<not> CheckPassword e (userHash user) current
        then (fst s, renderDashboard p v ctx ''Current password is incorrect.'' [] (snd s))
        else if length nxt < 8
        then (fst s, renderDashboard p v ctx ''New password must be at least 8 characters.'' [] (snd s))
        else if nxt \<noteq> confirm
        then (fst s, renderDashboard p v ctx ''New passwords do not match.'' [] (snd s))
        else
          (case HashPassword e nxt of
             None \<Rightarrow> (fst s, renderDashboard p v ctx ''Could not update password.'' [] (snd s))
           | Some hash \<Rightarrow>
               (case SetUserPassword (fst s) (userID user) hash of
                  (Inl _, d) \<Rightarrow> (d, renderDashboard p v ctx ''Could not update password.'' [] (snd s))
                | (Inr _, d) \<Rightarrow> (d, renderDashboard p v ctx [] ''Password updated.'' (snd s))))))"

subsection \<open>The administrator's pages (\<open>handlers_admin.go\<close>)\<close>

definition renderAdminUsers :: "Portal \<Rightarrow> View \<Rightarrow> User option \<Rightarrow> string \<Rightarrow> string \<Rightarrow> reply \<Rightarrow> reply" where
  "renderAdminUsers p v ctx errMsg okMsg s =
     (case ListUsers (fst s) of
        (res, d) \<Rightarrow> (d, render v ''admin_users''
           (UsersPage ctx (case res of Inl _ \<Rightarrow> [] | Inr us \<Rightarrow> us) errMsg okMsg) (snd s)))"

definition handleAdminUsers :: "Portal \<Rightarrow> View \<Rightarrow> handler" where
  "handleAdminUsers p v e ctx r s = renderAdminUsers p v ctx [] [] s"

definition handleCreateUser :: "Portal \<Rightarrow> View \<Rightarrow> handler" where
  "handleCreateUser p v e ctx r s =
     (let username = FormValue r ''username'';
          password = FormValue r ''password'';
          role = (if FormValue r ''role'' \<noteq> RoleAdmin then RoleUser else FormValue r ''role'') in
      if username = [] \<or> length password < 8
      then renderAdminUsers p v ctx ''Username required and password must be at least 8 characters.'' [] s
      else
        (case HashPassword e password of
           None \<Rightarrow> renderAdminUsers p v ctx ''Could not hash password.'' [] s
         | Some hash \<Rightarrow>
             (case CreateUser (now e) (fst s) username hash role of
                (Inl _, d) \<Rightarrow> renderAdminUsers p v ctx ''Could not create user (username taken?).'' [] (d, snd s)
              | (Inr _, d) \<Rightarrow> renderAdminUsers p v ctx [] (''Created user '' @ username @ ''.'') (d, snd s))))"

definition handleDisableUser :: "Portal \<Rightarrow> View \<Rightarrow> handler" where
  "handleDisableUser p v e ctx r s =
     (let d = (case parse_int (rPathID r) of
                 Some i \<Rightarrow> snd (DeleteUserSessions (snd (SetUserDisabled (fst s) i True)) i)
               | None \<Rightarrow> fst s)
      in (d, Redirect r ''/admin/users'' StatusSeeOther (snd s)))"

definition handleEnableUser :: "Portal \<Rightarrow> View \<Rightarrow> handler" where
  "handleEnableUser p v e ctx r s =
     (let d = (case parse_int (rPathID r) of
                 Some i \<Rightarrow> snd (SetUserDisabled (fst s) i False)
               | None \<Rightarrow> fst s)
      in (d, Redirect r ''/admin/users'' StatusSeeOther (snd s)))"

definition handleResetPassword :: "Portal \<Rightarrow> View \<Rightarrow> handler" where
  "handleResetPassword p v e ctx r s =
     (let password = FormValue r ''password'' in
      case parse_int (rPathID r) of
        None \<Rightarrow> renderAdminUsers p v ctx ''Password must be at least 8 characters.'' [] s
      | Some i \<Rightarrow>
          (if length password < 8
           then renderAdminUsers p v ctx ''Password must be at least 8 characters.'' [] s
           else
             (case HashPassword e password of
                None \<Rightarrow> renderAdminUsers p v ctx ''Could not hash password.'' [] s
              | Some hash \<Rightarrow>
                  renderAdminUsers p v ctx [] ''Password reset.''
                    (snd (DeleteUserSessions (snd (SetUserPassword (fst s) i hash)) i), snd s))))"

definition admin_row :: "View \<Rightarrow> User list \<Rightarrow> LiveTunnel \<Rightarrow> adminTunnelRow" where
  "admin_row v us lt = \<lparr>
     arUsername = (case map_of (rev (map (\<lambda>u. (userID u, userName u)) us)) (ltUserID lt) of
                     Some n \<Rightarrow> n | None \<Rightarrow> []),
     arSubdomain = ltSubdomain lt, arRemoteAddr = ltRemoteAddr lt,
     arConnectedAt = format_time v ''2006-01-02 15:04:05'' (ltConnectedAt lt), arRequests = ltRequests lt\<rparr>"

definition handleAdminTunnels :: "Portal \<Rightarrow> View \<Rightarrow> handler" where
  "handleAdminTunnels p v e ctx r s =
     (case ListUsers (fst s) of
        (res, d) \<Rightarrow>
          (d, render v ''admin_tunnels''
                (TunnelsPage ctx
                   (map (admin_row v (case res of Inl _ \<Rightarrow> [] | Inr us \<Rightarrow> us)) (AllActive (live v) (order v))))
                (snd s)))"

subsection \<open>Routes\<close>

text \<open>A pattern of \<open>ServeMux\<close>: the segments of a path, a wildcard matching one that is not empty.\<close>

datatype seg = Lit string | Wild

type_synonym route = "string \<times> seg list \<times> handler"

definition routes :: "Portal \<Rightarrow> View \<Rightarrow> route list" where
  "routes p v =
    [(''GET'', [Lit ''login''], handleLoginForm p v),
     (''POST'', [Lit ''login''], handleLoginSubmit p v),
     (''GET'', [Lit ''logout''], handleLogout p v),
     (''POST'', [Lit ''api'', Lit ''auth'', Lit ''login''], handleAPILogin p v),
     (''GET'', [Lit []], RequireAuth (handleDashboard p v)),
     (''GET'', [Lit ''tokens''], RequireAuth (handleTokens p v)),
     (''POST'', [Lit ''tokens''], RequireAuth (handleCreateToken p v)),
     (''POST'', [Lit ''tokens'', Wild, Lit ''revoke''], RequireAuth (handleRevokeToken p v)),
     (''POST'', [Lit ''account'', Lit ''password''], RequireAuth (handleChangePassword p v)),
     (''GET'', [Lit ''admin'', Lit ''users''], RequireAdmin (handleAdminUsers p v)),
     (''POST'', [Lit ''admin'', Lit ''users''], RequireAdmin (handleCreateUser p v)),
     (''POST'', [Lit ''admin'', Lit ''users'', Wild, Lit ''disable''], RequireAdmin (handleDisableUser p v)),
     (''POST'', [Lit ''admin'', Lit ''users'', Wild, Lit ''enable''], RequireAdmin (handleEnableUser p v)),
     (''POST'', [Lit ''admin'', Lit ''users'', Wild, Lit ''reset-password''], RequireAdmin (handleResetPassword p v)),
     (''GET'', [Lit ''admin'', Lit ''tunnels''], RequireAdmin (handleAdminTunnels p v))]"

text \<open>The match binds the wildcard, the empty text when there is none.\<close>

fun match_path :: "seg list \<Rightarrow> string list \<Rightarrow> string option" where
  "match_path [] [] = Some []"
| "match_path (Lit l # ps) (x # xs) = (if l = x then match_path ps xs else None)"
| "match_path (Wild # ps) (x # xs) =
     (if x = [] then None else (case match_path ps xs of Some _ \<Rightarrow> Some x | None \<Rightarrow> None))"
| "match_path _ _ = None"

definition path_segments :: "Request \<Rightarrow> string list" where
  "path_segments r = tl (split_byte (CHR ''/'') (fst (cut (CHR ''?'') (rURI r))))"

definition method_matches :: "string \<Rightarrow> string \<Rightarrow> bool" where
  "method_matches pat m \<longleftrightarrow> pat = m \<or> (pat = ''GET'' \<and> m = ''HEAD'')"

fun find_route :: "route list \<Rightarrow> string \<Rightarrow> string list \<Rightarrow> (string \<times> handler) option" where
  "find_route [] m path = None"
| "find_route ((pm, pat, f) # rs) m path =
     (case match_path pat path of
        Some i \<Rightarrow> if method_matches pm m then Some (i, f) else find_route rs m path
      | None \<Rightarrow> find_route rs m path)"

text \<open>The mux: 405 when only the method differs, 404 when no pattern has the path.\<close>

definition serve :: "Portal \<Rightarrow> View \<Rightarrow> Env \<Rightarrow> Request \<Rightarrow> reply \<Rightarrow> reply" where
  "serve p v e r s =
     (let path = path_segments r in
      case find_route (routes p v) (rMethod r) path of
        Some (i, f) \<Rightarrow> f e None (r\<lparr>rPathID := i\<rparr>) s
      | None \<Rightarrow>
          (if list_ex (\<lambda>(pm, pat, f). match_path pat path \<noteq> None) (routes p v)
           then (fst s, Error ''Method Not Allowed'' 405 (snd s))
           else (fst s, Error ''404 page not found'' 404 (snd s))))"

subsection \<open>The policy\<close>

text \<open>
  What a request may do to the store, stated without the handlers. \<open>signed_in\<close> is the user
  its session cookie stands for; \<open>password_user\<close> one whose name and password it carries.
\<close>

definition signed_in :: "Env \<Rightarrow> Request \<Rightarrow> db \<Rightarrow> User \<Rightarrow> bool" where
  "signed_in e r d u \<longleftrightarrow> fst (userFromCookie e d r) = Inr u"

definition supplies :: "Request \<Rightarrow> string \<Rightarrow> string \<Rightarrow> bool" where
  "supplies r name pw \<longleftrightarrow> (name = FormValue r ''username'' \<and> pw = FormValue r ''password'') \<or>
     (\<exists>b. decode_login (rBody r) = Some b \<and> name = lbUsername b \<and> pw = lbPassword b)"

definition password_user :: "Env \<Rightarrow> Request \<Rightarrow> db \<Rightarrow> User \<Rightarrow> bool" where
  "password_user e r d u \<longleftrightarrow> u \<in> set (users d) \<and> \<not> userDisabled u \<and>
     (\<exists>pw. supplies r (userName u) pw \<and> CheckPassword e (userHash u) pw)"

definition strong_hash :: "Env \<Rightarrow> string \<Rightarrow> bool" where
  "strong_hash e h \<longleftrightarrow> (\<exists>pw. 8 \<le> length pw \<and> HashPassword e pw = Some h)"

fun allowed :: "Env \<Rightarrow> Request \<Rightarrow> db \<Rightarrow> store_call \<Rightarrow> bool" where
  "allowed e r d (CallCreateUser n h role) \<longleftrightarrow>
     (\<exists>a. signed_in e r d a \<and> IsAdmin a) \<and> n \<noteq> [] \<and> strong_hash e h \<and> role \<in> {RoleAdmin, RoleUser}"
| "allowed e r d (CallSetUserDisabled i b) \<longleftrightarrow> (\<exists>a. signed_in e r d a \<and> IsAdmin a)"
| "allowed e r d (CallDeleteUserSessions i) \<longleftrightarrow> (\<exists>a. signed_in e r d a \<and> IsAdmin a)"
| "allowed e r d (CallSetUserPassword i h) \<longleftrightarrow> strong_hash e h \<and>
     (\<exists>a. signed_in e r d a \<and> (IsAdmin a \<or>
        (userID a = i \<and> CheckPassword e (userHash a) (FormValue r ''current_password''))))"
| "allowed e r d (CallCreateToken i n h) \<longleftrightarrow>
     (\<exists>u. userID u = i \<and> (signed_in e r d u \<or> password_user e r d u))"
| "allowed e r d (CallRevokeToken i uid) \<longleftrightarrow> (\<exists>u. userID u = uid \<and> signed_in e r d u)"
| "allowed e r d (CallCreateSession sid uid ttl) \<longleftrightarrow>
     (\<exists>u. userID u = uid \<and> password_user e r d u) \<and> ttl = SessionTTL"
| "allowed e r d (CallGetSession sid) \<longleftrightarrow> Cookie r SessionCookieName = Some sid"
| "allowed e r d (CallDeleteSession sid) \<longleftrightarrow> Cookie r SessionCookieName = Some sid"
| "allowed e r d (CallOpenTunnelEvent i sub remote) \<longleftrightarrow> False"
| "allowed e r d (CallCloseTunnelEvent i) \<longleftrightarrow> False"
| "allowed e r d (CallTouchToken i) \<longleftrightarrow> False"
| "allowed e r d c \<longleftrightarrow> True"

text \<open>A change of the store that is a run of calls the policy allows.\<close>

definition permitted :: "Env \<Rightarrow> Request \<Rightarrow> db \<Rightarrow> db \<Rightarrow> db \<Rightarrow> bool" where
  "permitted e r d0 d d' \<longleftrightarrow>
     (\<exists>cs. d' = store_run (map (Pair (now e)) cs) d \<and> (\<forall>c\<in>set cs. allowed e r d0 c))"

lemma permitted_refl [simp]: "permitted e r d0 d d"
  unfolding permitted_def by (intro exI [of _ "[]"]) simp

lemma permitted_trans: "permitted e r d0 d1 d2 \<Longrightarrow> permitted e r d0 d2 d3 \<Longrightarrow> permitted e r d0 d1 d3"
  unfolding permitted_def by (elim exE, rename_tac cs cs', rule_tac x = "cs @ cs'" in exI) auto

lemma permitted_call: "allowed e r d0 c \<Longrightarrow> permitted e r d0 d (store_step (now e, c) d)"
  unfolding permitted_def by (intro exI [of _ "[c]"]) simp

lemma permitted_then:
  "allowed e r d0 c \<Longrightarrow> permitted e r d0 (store_step (now e, c) d) d' \<Longrightarrow> permitted e r d0 d d'"
  using permitted_trans permitted_call by blast

text \<open>One operation after a permitted change, as the handlers run it: by its result.\<close>

lemma permitted_ops:
  assumes "permitted e r d0 d d1"
  shows "CreateUser (now e) d1 n h role = (x, d2) \<Longrightarrow> allowed e r d0 (CallCreateUser n h role) \<Longrightarrow> permitted e r d0 d d2"
    and "SetUserPassword d1 i h = (y, d2) \<Longrightarrow> allowed e r d0 (CallSetUserPassword i h) \<Longrightarrow> permitted e r d0 d d2"
    and "CreateToken (now e) d1 i n h = (x, d2) \<Longrightarrow> allowed e r d0 (CallCreateToken i n h) \<Longrightarrow> permitted e r d0 d d2"
    and "CreateSession (now e) d1 n i ttl = (y, d2) \<Longrightarrow> allowed e r d0 (CallCreateSession n i ttl) \<Longrightarrow> permitted e r d0 d d2"
    and "GetSession (now e) d1 n = (z, d2) \<Longrightarrow> allowed e r d0 (CallGetSession n) \<Longrightarrow> permitted e r d0 d d2"
    and "GetUser d1 i = (u, d2) \<Longrightarrow> permitted e r d0 d d2"
    and "GetUserByUsername d1 n = (u, d2) \<Longrightarrow> permitted e r d0 d d2"
    and "ListUsers d1 = (us, d2) \<Longrightarrow> permitted e r d0 d d2"
    and "ListTokens d1 i = (ts, d2) \<Longrightarrow> permitted e r d0 d d2"
proof -
  have op: "store_step (now e, c) d1 = d2 \<Longrightarrow> allowed e r d0 c \<Longrightarrow> permitted e r d0 d d2" for c
    using assms permitted_call permitted_trans by blast
  show "CreateUser (now e) d1 n h role = (x, d2) \<Longrightarrow> allowed e r d0 (CallCreateUser n h role) \<Longrightarrow> permitted e r d0 d d2"
    by (rule op [of "CallCreateUser n h role"]) simp_all
  show "SetUserPassword d1 i h = (y, d2) \<Longrightarrow> allowed e r d0 (CallSetUserPassword i h) \<Longrightarrow> permitted e r d0 d d2"
    by (rule op [of "CallSetUserPassword i h"]) simp_all
  show "CreateToken (now e) d1 i n h = (x, d2) \<Longrightarrow> allowed e r d0 (CallCreateToken i n h) \<Longrightarrow> permitted e r d0 d d2"
    by (rule op [of "CallCreateToken i n h"]) simp_all
  show "CreateSession (now e) d1 n i ttl = (y, d2) \<Longrightarrow> allowed e r d0 (CallCreateSession n i ttl) \<Longrightarrow> permitted e r d0 d d2"
    by (rule op [of "CallCreateSession n i ttl"]) simp_all
  show "GetSession (now e) d1 n = (z, d2) \<Longrightarrow> allowed e r d0 (CallGetSession n) \<Longrightarrow> permitted e r d0 d d2"
    by (rule op [of "CallGetSession n"]) simp_all
  show "GetUser d1 i = (u, d2) \<Longrightarrow> permitted e r d0 d d2"
    by (rule op [of "CallGetUser i"]) simp_all
  show "GetUserByUsername d1 n = (u, d2) \<Longrightarrow> permitted e r d0 d d2"
    by (rule op [of "CallGetUserByUsername n"]) simp_all
  show "ListUsers d1 = (us, d2) \<Longrightarrow> permitted e r d0 d d2"
    by (rule op [of "CallListUsers"]) simp_all
  show "ListTokens d1 i = (ts, d2) \<Longrightarrow> permitted e r d0 d d2"
    by (rule op [of "CallListTokens i"]) simp_all
qed

lemma permitted_cookie: "userFromCookie e d r = (x, d') \<Longrightarrow> permitted e r d d d'"
  by (auto simp: userFromCookie_def split: option.splits prod.splits sum.splits if_splits
      intro: permitted_ops(6) [OF permitted_ops(5) [OF permitted_refl]] permitted_ops(5) [OF permitted_refl])

subsection \<open>The handlers keep to the policy\<close>

lemma renderTokens_permitted:
  "permitted e r d0 d (fst s) \<Longrightarrow> permitted e r d0 d (fst (renderTokens p v ctx a b s))"
  by (cases ctx) (auto simp: renderTokens_def split: prod.split intro: permitted_ops(9))

lemma renderAdminUsers_permitted:
  "permitted e r d0 d (fst s) \<Longrightarrow> permitted e r d0 d (fst (renderAdminUsers p v ctx a b s))"
  by (auto simp: renderAdminUsers_def split: prod.split intro: permitted_ops(8))

lemma GetUserByUsername_SomeD:
  assumes "GetUserByUsername d n = (Inr u, d')"
  shows "u \<in> set (users d)" "userName u = n"
  using assms find_SomeD unfolding GetUserByUsername_def scanUser_def
  by (cases rule: sql_cases [of "\<lambda>d. (case find (\<lambda>u. userName u = n) (users d) of
        None \<Rightarrow> Inl ErrNotFound | Some u \<Rightarrow> Inr u, d)" d];
      fastforce split: option.splits)+

lemma login_submit_permitted: "permitted e r (fst s) (fst s) (fst (handleLoginSubmit p v e ctx r s))"
proof -
  let ?n = "FormValue r ''username''"
  obtain x d1 where g: "GetUserByUsername (fst s) ?n = (x, d1)" by fastforce
  have p1: "permitted e r (fst s) (fst s) d1" by (rule permitted_ops(7) [OF permitted_refl g])
  have "permitted e r (fst s) (fst s) d2"
    if "x = Inr u" "\<not> userDisabled u" "CheckPassword e (userHash u) (FormValue r ''password'')"
      "CreateSession (now e) d1 sid (userID u) SessionTTL = (y, d2)" for u sid y d2
  proof (rule permitted_ops(4) [OF p1 that(4)])
    have "password_user e r (fst s) u"
      using that GetUserByUsername_SomeD [OF g [unfolded that(1)]] by (auto simp: password_user_def supplies_def)
    then show "allowed e r (fst s) (CallCreateSession sid (userID u) SessionTTL)" by auto
  qed
  then show ?thesis
    using g p1 by (auto simp: handleLoginSubmit_def setSessionCookie_def Let_def
        split: sum.split prod.split option.split bool.split)
qed

lemma api_login_permitted: "permitted e r (fst s) (fst s) (fst (handleAPILogin p v e ctx r s))"
proof (cases "decode_login (rBody r)")
  case (Some b)
  obtain x d1 where g: "GetUserByUsername (fst s) (lbUsername b) = (x, d1)" by fastforce
  have p1: "permitted e r (fst s) (fst s) d1" by (rule permitted_ops(7) [OF permitted_refl g])
  have "permitted e r (fst s) (fst s) d2"
    if "x = Inr u" "\<not> userDisabled u" "CheckPassword e (userHash u) (lbPassword b)"
      "CreateToken (now e) d1 (userID u) n h = (y, d2)" for u n h y d2
  proof (rule permitted_ops(3) [OF p1 that(4)])
    have "password_user e r (fst s) u"
      using that GetUserByUsername_SomeD [OF g [unfolded that(1)]] Some by (auto simp: password_user_def supplies_def)
    then show "allowed e r (fst s) (CallCreateToken (userID u) n h)" by auto
  qed
  then show ?thesis
    using g p1 Some by (auto simp: handleAPILogin_def Let_def split: sum.split prod.split option.split)
qed (simp add: handleAPILogin_def)

lemma logout_permitted: "permitted e r (fst s) (fst s) (fst (handleLogout p v e ctx r s))"
  using permitted_call [of e r "fst s" "CallDeleteSession (the (Cookie r SessionCookieName))" "fst s"]
  by (auto simp: handleLogout_def Let_def split: option.split)

text \<open>The handlers behind a guard, run for the user the cookie stands for.\<close>

lemma user_pages_permitted:
  assumes "signed_in e r d0 u" "permitted e r d0 d0 d"
  shows "permitted e r d0 d0 (fst (handleDashboard p v e (Some u) r (d, w)))"
    and "permitted e r d0 d0 (fst (handleTokens p v e (Some u) r (d, w)))"
    and "permitted e r d0 d0 (fst (handleCreateToken p v e (Some u) r (d, w)))"
    and "permitted e r d0 d0 (fst (handleRevokeToken p v e (Some u) r (d, w)))"
    and "permitted e r d0 d0 (fst (handleChangePassword p v e (Some u) r (d, w)))"
proof -
  have tok: "allowed e r d0 (CallCreateToken (userID u) n h)" "allowed e r d0 (CallRevokeToken i (userID u))" for n h i
    using assms(1) by auto
  have pw: "allowed e r d0 (CallSetUserPassword (userID u) h)"
    if "CheckPassword e (userHash u) (FormValue r ''current_password'')" "8 \<le> length (FormValue r ''new_password'')"
      "HashPassword e (FormValue r ''new_password'') = Some h" for h
    using assms(1) that by (auto simp: strong_hash_def)
  show "permitted e r d0 d0 (fst (handleDashboard p v e (Some u) r (d, w)))"
    by (simp add: handleDashboard_def assms)
  show "permitted e r d0 d0 (fst (handleTokens p v e (Some u) r (d, w)))"
    by (simp add: handleTokens_def renderTokens_permitted assms)
  show "permitted e r d0 d0 (fst (handleCreateToken p v e (Some u) r (d, w)))"
    using permitted_ops(3) [OF assms(2) _ tok(1)]
    by (auto simp: handleCreateToken_def Let_def assms(2) renderTokens_permitted split: option.split sum.split prod.split)
  show "permitted e r d0 d0 (fst (handleRevokeToken p v e (Some u) r (d, w)))"
    using permitted_trans [OF assms(2) permitted_call [OF tok(2)]]
    by (auto simp: handleRevokeToken_def assms(2) split: option.split)
  show "permitted e r d0 d0 (fst (handleChangePassword p v e (Some u) r (d, w)))"
    using permitted_ops(2) [OF assms(2) _ pw]
    by (auto simp: handleChangePassword_def Let_def assms(2) split: option.split sum.split prod.split)
qed

lemma admin_pages_permitted:
  assumes "signed_in e r d0 a" "IsAdmin a" "permitted e r d0 d0 d"
  shows "permitted e r d0 d0 (fst (handleAdminUsers p v e (Some a) r (d, w)))"
    and "permitted e r d0 d0 (fst (handleCreateUser p v e (Some a) r (d, w)))"
    and "permitted e r d0 d0 (fst (handleDisableUser p v e (Some a) r (d, w)))"
    and "permitted e r d0 d0 (fst (handleEnableUser p v e (Some a) r (d, w)))"
    and "permitted e r d0 d0 (fst (handleResetPassword p v e (Some a) r (d, w)))"
    and "permitted e r d0 d0 (fst (handleAdminTunnels p v e (Some a) r (d, w)))"
proof -
  have a: "\<exists>a. signed_in e r d0 a \<and> IsAdmin a" using assms(1,2) by blast
  have cu: "allowed e r d0 (CallCreateUser (FormValue r ''username'') h role)"
    if "FormValue r ''username'' \<noteq> []" "8 \<le> length (FormValue r ''password'')"
      "HashPassword e (FormValue r ''password'') = Some h" "role \<in> {RoleAdmin, RoleUser}" for h role
    using a that by (auto simp: strong_hash_def)
  have op: "permitted e r d0 d0 d1 \<Longrightarrow> allowed e r d0 c \<Longrightarrow> permitted e r d0 d0 (store_step (now e, c) d1)" for c d1
    using permitted_trans permitted_call by blast
  have ds: "permitted e r d0 d0 d1 \<Longrightarrow> permitted e r d0 d0 (snd (DeleteUserSessions d1 i))" for d1 i
    using op [of d1 "CallDeleteUserSessions i"] a by simp
  have sd: "permitted e r d0 d0 d1 \<Longrightarrow> permitted e r d0 d0 (snd (SetUserDisabled d1 i b))" for d1 i b
    using op [of d1 "CallSetUserDisabled i b"] a by simp
  have sp: "permitted e r d0 d0 d1 \<Longrightarrow> 8 \<le> length (FormValue r ''password'') \<Longrightarrow>
      HashPassword e (FormValue r ''password'') = Some h \<Longrightarrow> permitted e r d0 d0 (snd (SetUserPassword d1 i h))" for d1 i h
    using op [of d1 "CallSetUserPassword i h"] assms(1,2) by (auto simp: strong_hash_def)
  show "permitted e r d0 d0 (fst (handleAdminUsers p v e (Some a) r (d, w)))"
    by (simp add: handleAdminUsers_def renderAdminUsers_permitted assms)
  show "permitted e r d0 d0 (fst (handleCreateUser p v e (Some a) r (d, w)))"
    using permitted_ops(1) [OF assms(3) _ cu]
    by (auto simp: handleCreateUser_def Let_def assms(3) renderAdminUsers_permitted
        split: option.split sum.split prod.split)
  show "permitted e r d0 d0 (fst (handleDisableUser p v e (Some a) r (d, w)))"
    by (simp add: handleDisableUser_def ds sd assms(3) split: option.split)
  show "permitted e r d0 d0 (fst (handleEnableUser p v e (Some a) r (d, w)))"
    by (simp add: handleEnableUser_def sd assms(3) split: option.split)
  show "permitted e r d0 d0 (fst (handleResetPassword p v e (Some a) r (d, w)))"
    by (auto simp: handleResetPassword_def Let_def ds sp assms(3) intro!: renderAdminUsers_permitted
        split: option.split)
  show "permitted e r d0 d0 (fst (handleAdminTunnels p v e (Some a) r (d, w)))"
    by (auto simp: handleAdminTunnels_def split: prod.split intro: permitted_ops(8) [OF assms(3)])
qed

text \<open>A guarded route keeps to the policy when its handler does for the users it admits.\<close>

lemma require_auth_permitted:
  assumes "\<And>u d w. signed_in e r (fst s) u \<Longrightarrow> permitted e r (fst s) (fst s) d \<Longrightarrow>
    permitted e r (fst s) (fst s) (fst (f e (Some u) r (d, w)))"
  shows "permitted e r (fst s) (fst s) (fst (RequireAuth f e ctx r s))"
  by (rule require_auth.keeps [where I = "permitted e r (fst s) (fst s)"])
    (auto simp: signed_in_def intro!: assms permitted_cookie [OF prod.collapse [symmetric]])

lemma require_admin_permitted:
  assumes "\<And>a d w. signed_in e r (fst s) a \<Longrightarrow> IsAdmin a \<Longrightarrow> permitted e r (fst s) (fst s) d \<Longrightarrow>
    permitted e r (fst s) (fst s) (fst (f e (Some a) r (d, w)))"
  shows "permitted e r (fst s) (fst s) (fst (RequireAdmin f e ctx r s))"
  by (rule require_admin.keeps [where I = "permitted e r (fst s) (fst s)"])
    (auto simp: signed_in_def intro!: assms permitted_cookie [OF prod.collapse [symmetric]])

lemma find_route_mem: "find_route rs m path = Some (i, f) \<Longrightarrow> \<exists>pm pat. (pm, pat, f) \<in> set rs"
  by (induction rs m path rule: find_route.induct) (auto split: option.splits if_splits)

lemma route_permitted:
  assumes "(pm, pat, f) \<in> set (routes p v)"
  shows "permitted e r (fst s) (fst s) (fst (f e None r s))"
  using assms
  by (auto simp: routes_def handleLoginForm_def login_submit_permitted logout_permitted api_login_permitted
      intro!: require_auth_permitted require_admin_permitted user_pages_permitted admin_pages_permitted)

text \<open>The path value a route binds plays no part in the policy.\<close>

lemma permitted_path [simp]: "permitted e (r\<lparr>rPathID := i\<rparr>) d0 d d' = permitted e r d0 d d'"
proof -
  have u: "userFromCookie e d (r\<lparr>rPathID := i\<rparr>) = userFromCookie e d r" for d
    by (simp add: userFromCookie_def Cookie_def)
  have "allowed e (r\<lparr>rPathID := i\<rparr>) d c = allowed e r d c" for d c
    by (cases c) (simp_all add: signed_in_def password_user_def supplies_def FormValue_def Cookie_def u)
  then show ?thesis by (simp add: permitted_def)
qed

lemma serve_permitted: "permitted e r (fst s) (fst s) (fst (serve p v e r s))"
proof (cases "find_route (routes p v) (rMethod r) (path_segments r)")
  case (Some x)
  obtain i f where x: "x = (i, f)" by fastforce
  obtain pm pat where "(pm, pat, f) \<in> set (routes p v)"
    using find_route_mem Some x by blast
  from route_permitted [OF this, of e "r\<lparr>rPathID := i\<rparr>" s]
  show ?thesis by (simp add: serve_def Some x)
qed (simp add: serve_def)

subsection \<open>What a call leaves alone\<close>

text \<open>The users without their password hashes, and the users other than one.\<close>

definition user_cores :: "db \<Rightarrow> User list" where
  "user_cores d = map (\<lambda>u. u\<lparr>userHash := []\<rparr>) (users d)"

lemma user_cores_faults [simp]: "user_cores (d\<lparr>faults := fs\<rparr>) = user_cores d"
  by (simp add: user_cores_def)

lemma user_cores_tables: "users d' = users d \<Longrightarrow> user_cores d' = user_cores d"
  by (simp add: user_cores_def)

lemma sql_user_cores:
  "(\<And>d. user_cores d = x \<Longrightarrow> user_cores (snd (stmt d)) = x) \<Longrightarrow> user_cores d = x \<Longrightarrow> user_cores (snd (sql stmt d)) = x"
  by (rule sql_inv [where P = "\<lambda>d. user_cores d = x"]) simp_all

lemma user_cores_password: "user_cores (snd (SetUserPassword d i h)) = user_cores d"
proof -
  have "(\<lambda>u. u\<lparr>userHash := []\<rparr>) \<circ> (\<lambda>r. if userID r = i then r\<lparr>userHash := h\<rparr> else r) =
      (\<lambda>u :: User. u\<lparr>userHash := []\<rparr>)" by auto
  then show ?thesis unfolding SetUserPassword_def
    by (intro sql_user_cores) (simp_all add: user_cores_def update_where_def)
qed

fun manages_users :: "store_call \<Rightarrow> bool" where
  "manages_users (CallCreateUser n h role) = True"
| "manages_users (CallSetUserDisabled i b) = True"
| "manages_users c = False"

lemma user_cores_step: "\<not> manages_users (snd c) \<Longrightarrow> user_cores (store_step c d) = user_cores d"
  by (induction c d rule: store_step.induct)
    (auto simp: user_cores_password go_frame intro!: user_cores_tables)

lemma user_cores_run:
  "\<forall>c\<in>set cs. \<not> manages_users c \<Longrightarrow> user_cores (store_run (map (Pair t) cs) d) = user_cores d"
  by (induction cs arbitrary: d) (auto simp: user_cores_step)

lemma manages_users_admin: "manages_users c \<Longrightarrow> allowed e r d c \<Longrightarrow> \<exists>a. signed_in e r d a \<and> IsAdmin a"
  by (cases c) auto

text \<open>A token that is not revoked stays so.\<close>

definition token_live :: "Token \<Rightarrow> db \<Rightarrow> bool" where
  "token_live t d \<longleftrightarrow> (\<exists>t'\<in>set (tokens d). tokID t' = tokID t \<and> tokUser t' = tokUser t
     \<and> tokHash t' = tokHash t \<and> \<not> tokRevoked t')"

lemma token_live_faults [simp]: "token_live t (d\<lparr>faults := fs\<rparr>) = token_live t d"
  by (simp add: token_live_def)

lemma token_live_tables: "tokens d' = tokens d \<Longrightarrow> token_live t d' = token_live t d"
  by (simp add: token_live_def)






subsection \<open>Properties\<close>

text \<open>
  C17. Every request to the portal, to any path, changes the store only by a run of calls the policy
  allows for it: users are created, enabled and disabled by administrators, passwords set by
  administrators or by the user who knows the current one, with at least eight bytes, tokens made
  for and revoked by the user the cookie stands for, sessions opened for a password that matches.
\<close>

theorem portal_policy:
  "\<exists>cs. fst (serve p v e r s) = store_run (map (Pair (now e)) cs) (fst s) \<and> list_all (allowed e r (fst s)) cs"
  using serve_permitted [of e r s p v] by (auto simp: permitted_def list_all_iff)

text \<open>
  C18. A request whose cookie stands for no administrator leaves every user's id, name, role and
  disabled flag as they were, and adds no user.
\<close>

theorem users_need_admin:
  assumes "\<And>a. signed_in e r (fst s) a \<Longrightarrow> \<not> IsAdmin a"
  shows "user_cores (fst (serve p v e r s)) = user_cores (fst s)"
proof -
  obtain cs where cs: "fst (serve p v e r s) = store_run (map (Pair (now e)) cs) (fst s)"
    "\<forall>c\<in>set cs. allowed e r (fst s) c"
    using serve_permitted [of e r s p v] by (auto simp: permitted_def)
  moreover have "\<forall>c\<in>set cs. \<not> manages_users c"
    using cs(2) assms manages_users_admin by blast
  ultimately show ?thesis by (simp add: user_cores_run)
qed


subsection \<open>Signing in\<close>

lemma user_by_name:
  assumes "db_wf d" "u \<in> set (users d)"
  shows "find (\<lambda>u'. userName u' = userName u) (users d) = Some u"
  by (rule find_unique_key) (use assms in \<open>simp_all add: db_wf_def\<close>)

lemma user_by_name_found:
  assumes "db_wf d" "faults d = []" "u \<in> set (users d)"
  shows "GetUserByUsername d (userName u) = (Inr u, d)"
  using user_by_name [OF assms(1,3)] assms(2) by (simp add: GetUserByUsername_def scanUser_def)

text \<open>A session just created, and no fault: its cookie stands for the user until it expires.\<close>

lemma fresh_session_resolves:
  assumes "db_wf d" "faults d = []" "u \<in> set (users d)" "\<not> userDisabled u"
    and "sid \<notin> sessID ` set (sessions d)"
    and "d' = snd (CreateSession n d sid (userID u) ttl)"
    and "Cookie r SessionCookieName = Some sid" "now e \<le> stamp (n + ttl) * second"
  shows "CreateSession n d sid (userID u) ttl = (Inr (), d')" "fst (userFromCookie e d' r) = Inr u"
proof -
  let ?s = "\<lparr>sessID = sid, sessUser = userID u, sessCreated = stamp n, sessExpires = stamp (n + ttl)\<rparr>"
  have c: "CreateSession n d sid (userID u) ttl = (Inr (), d\<lparr>sessions := sessions d @ [?s]\<rparr>)"
    using assms(2,3,5) by (auto simp: CreateSession_def)
  then have d': "d' = d\<lparr>sessions := sessions d @ [?s]\<rparr>" unfolding assms(6) by simp
  then show "CreateSession n d sid (userID u) ttl = (Inr (), d')" by (simp only: c)
  have "find (\<lambda>s. sessID s = sid) (sessions d') = Some ?s"
    using assms(5) by (simp add: d' find_append find_fresh_key)
  then have "GetSession (now e) d' sid = (Inr ?s, d')"
    using assms(2,8) by (simp add: GetSession_def d')
  moreover have "GetUser d' (userID u) = (Inr u, d')"
    using user_by_id [OF assms(1,3)] assms(2) by (simp add: GetUser_def scanUser_def d')
  ultimately show "fst (userFromCookie e d' r) = Inr u"
    using assms(4,7) by (simp add: userFromCookie_def)
qed

text \<open>
  C20. Signing in works: with the right name and password of an enabled user, a working random
  source and no database fault, the portal sets one session cookie and redirects to the dashboard,
  and until the session expires a request with that cookie stands for that very user.
\<close>

theorem login_gives_session:
  assumes "db_wf d" "faults d = []" "u \<in> set (users d)" "\<not> userDisabled u"
    and "FormValue r ''username'' = userName u" "CheckPassword e (userHash u) (FormValue r ''password'')"
    and "entropy e = Some buf" "hex_encode buf \<notin> sessID ` set (sessions d)"
    and "handleLoginSubmit p v e ctx r (d, new_writer) = (d', w')"
    and "Cookie r2 SessionCookieName = Some (hex_encode buf)" "now e2 \<le> stamp (now e + SessionTTL) * second"
  shows "sent_status w' = Some 303 \<and> map ckValue (wCookies w') = [hex_encode buf] \<and>
    fst (userFromCookie e2 d' r2) = Inr u"
proof -
  define d1 where "d1 = snd (CreateSession (now e) d (hex_encode buf) (userID u) SessionTTL)"
  note s = fresh_session_resolves [OF assms(1-4,8) d1_def assms(10,11)]
  have g: "GetUserByUsername d (FormValue r ''username'') = (Inr u, d)"
    using user_by_name_found [OF assms(1-3)] assms(5) by simp
  let ?ck = "\<lparr>ckName = SessionCookieName, ckValue = hex_encode buf, ckPath = ''/'',
     ckHttpOnly = True, ckSecure = pSecure p, ckSameSiteLax = True,
     ckExpires = Some (now e + SessionTTL), ckMaxAge = 0\<rparr>"
  have c: "setSessionCookie p e (userID u) (d, new_writer) = (True, (d1, SetCookie ?ck new_writer))"
    using s(1) assms(7) by (simp add: setSessionCookie_def NewSessionID_def)
  have "(d', w') = (d1, Redirect r ''/'' StatusSeeOther (SetCookie ?ck new_writer))"
    using assms(4,6,9) g c by (simp add: handleLoginSubmit_def Let_def)
  then show ?thesis
    using s(2) by (simp add: Redirect_status StatusSeeOther_def SetCookie_def new_writer_def)
qed

lemma api_login_answer:
  assumes "db_wf d" "faults d = []" "u \<in> set (users d)" "\<not> userDisabled u" "\<not> seq_full (token_seq d)"
    and "decode_login (rBody r) = Some b" "lbUsername b = userName u" "CheckPassword e (userHash u) (lbPassword b)"
    and "entropy e = Some buf" "HashToken e (hex_encode buf) \<notin> tokHash ` set (tokens d)"
    and "handleAPILogin p v e ctx r (d, new_writer) = (d', w')"
  shows "wBody w' = login_answer (hex_encode buf) u \<and> sent_status w' = Some StatusOK \<and>
    fst (ResolveToken e d' (hex_encode buf)) = Inr u"
proof -
  let ?h = "HashToken e (hex_encode buf)"
  let ?n = "if lbName b = [] then ''cli'' else lbName b"
  let ?t = "\<lparr>tokID = token_seq d + 1, tokUser = userID u, tokName = ?n, tokHash = ?h,
     tokCreated = stamp (now e), tokLastUsed = None, tokRevoked = False\<rparr>"
  let ?d1 = "d\<lparr>tokens := tokens d @ [?t], token_seq := token_seq d + 1\<rparr>"
  have ct: "CreateToken (now e) d (userID u) ?n ?h = (Inr (token_seq d + 1), ?d1)"
    using assms(2,3,5,10) by (auto simp: CreateToken_def Let_def)
  have wf: "db_wf ?d1" using create_token.keeps [OF assms(1), of "now e" "userID u" ?n ?h] unfolding ct by simp
  have g: "GetUserByUsername d (lbUsername b) = (Inr u, d)"
    using user_by_name_found [OF assms(1-3)] assms(7) by simp
  have r: "(d', w') = (?d1, snd (Write (login_answer (hex_encode buf) u)
      (set_header ''Content-Type'' ''application/json'' new_writer)))"
    using assms(4,6,8,9,11) g ct by (simp add: handleAPILogin_def GenerateToken_def Let_def)
  have nl: "declared_length (wHeader (set_header ''Content-Type'' ''application/json'' new_writer)) = None"
    by code_simp
  have "wBody w' = login_answer (hex_encode buf) u" "sent_status w' = Some StatusOK"
    using r nl by (auto simp: Write_def Let_def body_allowed_def set_header_def new_writer_def login_answer_def
      sent_status_def StatusOK_def)
  moreover have "ResolveToken e ?d1 (hex_encode buf) = (Inr u, snd (TouchToken (now e) ?d1 (tokID ?t)))"
    by (rule ResolveToken_live [OF wf]) (use assms(2-4) in simp_all)
  ultimately show ?thesis using r by simp
qed

lemma login_answer_read:
  assumes "valid_utf8 (userName u)" "valid_utf8 (userRole u)" "valid_utf8 plaintext"
  shows "decode_first (login_answer plaintext u) = Some (JObj [(''role'', JStr (userRole u)),
    (''token'', JStr plaintext), (''username'', JStr (userName u))])"
  using decode_first_print [of "JObj [(''role'', JStr (userRole u)),
    (''token'', JStr plaintext), (''username'', JStr (userName u))]" "[CHR 0x0A]"] assms
  unfolding login_answer_def by (simp del: print_json.simps add: ascii_valid_utf8)

text \<open>
  The login of the command line client works: with the right name and password in the JSON
  body, a working random source, a new token hash and no fault, the answer is a JSON object whose
  \<open>token\<close> member is a token that resolves to that user.
\<close>

lemma api_login_gives_token:
  assumes "db_wf d" "faults d = []" "u \<in> set (users d)" "\<not> userDisabled u" "\<not> seq_full (token_seq d)"
    and "decode_login (rBody r) = Some b" "lbUsername b = userName u" "CheckPassword e (userHash u) (lbPassword b)"
    and "entropy e = Some buf" "HashToken e (hex_encode buf) \<notin> tokHash ` set (tokens d)"
    and "valid_utf8 (userName u)" "valid_utf8 (userRole u)" "valid_utf8 (hex_encode buf)"
    and "handleAPILogin p v e ctx r (d, new_writer) = (d', w')"
  shows "decode_first (wBody w') = Some (JObj [(''role'', JStr (userRole u)),
      (''token'', JStr (hex_encode buf)), (''username'', JStr (userName u))]) \<and>
    fst (ResolveToken e d' (hex_encode buf)) = Inr u"
  using api_login_answer [OF assms(1-10,14)] login_answer_read [OF assms(11-13)] by simp

text \<open>
  Without the right password of an enabled user, neither login form nor API changes a table of
  the store or sets a cookie.
\<close>

lemma bad_login_changes_nothing:
  assumes "\<And>u. u \<in> set (users d) \<Longrightarrow> supplies r (userName u) pw \<Longrightarrow> userDisabled u \<or> \<not> CheckPassword e (userHash u) pw"
    and "pw = FormValue r ''password''" "decode_login (rBody r) = None \<or> lbPassword (the (decode_login (rBody r))) = pw"
  shows "same_data d (fst (handleLoginSubmit p v e ctx r (d, w))) \<and>
    wCookies (snd (handleLoginSubmit p v e ctx r (d, w))) = wCookies w \<and>
    same_data d (fst (handleAPILogin p v e ctx r (d, w)))"
proof -
  have g: "same_data d d1" if "GetUserByUsername d n = (x, d1)" for n x d1
    using read_same_data(2) [of d n] that by simp
  have bad: "userDisabled u \<or> \<not> CheckPassword e (userHash u) pw"
    if "GetUserByUsername d n = (Inr u, d1)" "supplies r n pw" for n u d1
    using assms(1) GetUserByUsername_SomeD [OF that(1)] that(2) by auto
  have rc: "wCookies (render v n a w) = wCookies w" for n a
    by (simp add: render_def set_header_def)
  have f: "supplies r (FormValue r ''username'') pw" by (simp add: supplies_def assms(2))
  have "same_data d (fst (handleLoginSubmit p v e ctx r (d, w))) \<and>
    wCookies (snd (handleLoginSubmit p v e ctx r (d, w))) = wCookies w"
    using bad [OF _ f] assms(2) g rc
    by (auto simp: handleLoginSubmit_def Let_def split: sum.split prod.split)
  moreover have "same_data d (fst (handleAPILogin p v e ctx r (d, w)))"
  proof (cases "decode_login (rBody r)")
    case (Some b)
    then have "supplies r (lbUsername b) pw" "lbPassword b = pw" using assms(3) by (auto simp: supplies_def)
    then show ?thesis using bad g Some
      by (auto simp: handleAPILogin_def Let_def split: sum.split prod.split)
  qed (simp add: handleAPILogin_def)
  ultimately show ?thesis by blast
qed

text \<open>Without faults a successful lookup of a cookie only reads.\<close>

lemma cookie_reads:
  assumes "faults d = []" "userFromCookie e d r = (Inr u, d')"
  shows "d' = d"
proof -
  obtain c where c: "Cookie r SessionCookieName = Some c"
    using assms(2) by (auto simp: userFromCookie_def split: option.splits)
  show ?thesis
    using assms c
    by (auto simp: userFromCookie_def GetSession_def GetUser_def scanUser_def
        split: option.splits if_splits prod.splits sum.splits)
qed

lemma disable_db:
  assumes "db_wf d" "faults d = []" "u \<in> set (users d)"
  shows "locked (userID u) (snd (DeleteUserSessions (snd (SetUserDisabled d (userID u) True)) (userID u)))"
  using locked_ops(9) [OF disable_locks [OF assms(1,3)]] assms(2) by (simp add: SetUserDisabled_def)

text \<open>
  C21. An administrator's request to disable a user takes effect at once and lasts: no open session
  of that user is left, and until somebody enables the user, no token and no cookie stands for it,
  whatever else runs on the store.
\<close>

theorem admin_disable_effective:
  assumes "db_wf d" "faults d = []" "u \<in> set (users d)" "int64_range (userID u)"
    and "signed_in e r d a" "IsAdmin a"
    and "rMethod r = ''POST''" "path_segments r = [''admin'', ''users'', itoa (userID u), ''disable'']"
    and "d' = fst (serve p v e r (d, w))"
    and "CallSetUserDisabled (userID u) False \<notin> snd ` set calls" "userID x = userID u"
  shows "userID u \<notin> sessUser ` set (sessions d') \<and>
    fst (ResolveToken e2 (store_run calls d') tok) \<noteq> Inr x \<and>
    fst (userFromCookie e2 (store_run calls d') r2) \<noteq> Inr x"
proof -
  let ?r = "r\<lparr>rPathID := itoa (userID u)\<rparr>"
  have "utoa m \<noteq> []" for m by (subst utoa.simps) simp
  then have n: "itoa (userID u) \<noteq> []" by (simp add: itoa_def)
  have f: "find_route (routes p v) ''POST'' [''admin'', ''users'', itoa (userID u), ''disable''] =
      Some (itoa (userID u), RequireAdmin (handleDisableUser p v))"
    using n by (simp add: routes_def method_matches_def)
  obtain d0 where "userFromCookie e d r = (Inr a, d0)"
    using assms(5) by (metis signed_in_def prod.collapse)
  then have c: "userFromCookie e (fst (d, w)) ?r = (Inr a, d)"
    using cookie_reads [OF assms(2)] by (simp add: userFromCookie_def Cookie_def)
  have "RequireAdmin (handleDisableUser p v) e None ?r (d, w) = handleDisableUser p v e (Some a) ?r (d, w)"
    using require_admin.pass [OF c assms(6)] by simp
  then have d': "d' = snd (DeleteUserSessions (snd (SetUserDisabled d (userID u) True)) (userID u))"
    using assms(4,7-9) f by (simp add: serve_def handleDisableUser_def parse_int_itoa)
  have "locked (userID u) (store_run calls d')"
    unfolding d' by (rule store_run_locked [OF disable_db [OF assms(1-3)] assms(10)])
  moreover have "userID u \<notin> sessUser ` set (sessions d')"
    using assms(2) by (auto simp: d' DeleteUserSessions_def SetUserDisabled_def)
  ultimately show ?thesis
    using assms(11) locked_no_token locked_no_cookie by metis
qed

text \<open>
  A user's dashboard shows only tunnels of that user, all that are active, and at most 25 recent
  requests, the newest ones.
\<close>

lemma dashboard_own_only:
  "\<exists>rows reqs. fst (handleDashboard p v e (Some u) r (d, w)) = d \<and>
     snd (handleDashboard p v e (Some u) r (d, w)) = render v ''dashboard'' (DashboardPage u rows reqs [] []) w \<and>
     rows = map (subdomain_row p v) (filter (\<lambda>t. ltUserID t = userID u) (AllActive (live v) (order v))) \<and>
     length reqs \<le> 25"
  using host_live.bounded [of "live v" "userID u" 25]
  by (auto simp: handleDashboard_def renderDashboard_def host_live.own)

subsection \<open>Concrete cases\<close>

definition sample_portal :: Portal where
  "sample_portal = New ''t.io'' 8002 False"

definition sample_view :: View where
  "sample_view = \<lparr>live = NewTunnelHost pool_cfg sample_db, order = [], execute = (\<lambda>pg. ''page''),
     format_time = (\<lambda>layout t. itoa t)\<rparr>"

definition root_user :: User where
  "root_user = \<lparr>userID = 2, userName = ''root'', userHash = ''#secret'', userRole = ''admin'',
     userDisabled = False, userCreated = 0\<rparr>"

definition admin_db :: db where
  "admin_db = sample_db\<lparr>users := [alice, root_user], user_seq := 2,
     sessions := [\<lparr>sessID = ''s1'', sessUser = 2, sessCreated = 0, sessExpires = 1000\<rparr>]\<rparr>"

lemma admin_db_simps [simp]:
  "users admin_db = [alice, root_user]" "tokens admin_db = [sample_token]" "faults admin_db = []"
  "events admin_db = []" "user_seq admin_db = 2" "token_seq admin_db = 1" "event_seq admin_db = 0"
  "sessions admin_db = [\<lparr>sessID = ''s1'', sessUser = 2, sessCreated = 0, sessExpires = 1000\<rparr>]"
  "userID root_user = 2" "userName root_user = ''root''" "userName alice = ''alice''"
  "\<not> userDisabled root_user" "IsAdmin root_user"
  by (simp_all add: admin_db_def root_user_def alice_def IsAdmin_def RoleAdmin_def)

lemma admin_db_wf: "db_wf admin_db"
  by (simp add: db_wf_def)

definition form_request :: "string \<Rightarrow> string \<Rightarrow> (string \<times> string list) list \<Rightarrow> (string \<times> string list) list \<Rightarrow> Request" where
  "form_request meth uri hdrs form = \<lparr>rMethod = meth, rHost = ''t.io'', rURI = uri,
     rHeader = fmap_of_list hdrs, rBody = Some [], rForm = fmap_of_list form,
     rRemoteAddr = ''1.2.3.4:5'', rPathID = []\<rparr>"

abbreviation disable_request :: Request where
  "disable_request \<equiv> form_request ''POST'' ''/admin/users/1/disable'' [(''Cookie'', [''ntunl_session=s1''])] []"

lemma disable_cookie: "Cookie disable_request SessionCookieName = Some ''s1''"
  "path_segments disable_request = [''admin'', ''users'', ''1'', ''disable'']"
  by code_simp+

lemma disable_signed_in: "signed_in sample_env disable_request admin_db root_user"
  using disable_cookie(1)
  by (simp add: signed_in_def userFromCookie_def GetSession_def GetUser_def scanUser_def sample_env_def second_def)

lemma admin_disable_effective_witness:
  "fst (ResolveToken sample_env (fst (serve sample_portal sample_view sample_env disable_request (admin_db, new_writer))) ''tok'')
     \<noteq> Inr alice"
proof -
  have i: "itoa 1 = ''1''" by code_simp
  have m: "rMethod disable_request = ''POST''" by (simp add: form_request_def)
  have p: "path_segments disable_request = [''admin'', ''users'', itoa (userID alice), ''disable'']"
    using disable_cookie(2) i by simp
  show ?thesis
    using admin_disable_effective [OF admin_db_wf _ _ _ disable_signed_in _ m p refl, of "[]" alice
        sample_portal sample_view new_writer sample_env "''tok''"]
    by (simp add: int64_range_def)
qed

lemma users_need_admin_witness:
  "user_cores (fst (serve sample_portal sample_view sample_env disable_request (sample_db, new_writer))) = user_cores sample_db"
proof -
  have "\<not> signed_in sample_env disable_request (fst (sample_db, new_writer)) a" for a
    using disable_cookie(1) by (simp add: signed_in_def userFromCookie_def GetSession_def)
  then show ?thesis using users_need_admin [of sample_env disable_request "(sample_db, new_writer)"] by simp
qed


abbreviation login_request :: Request where
  "login_request \<equiv> form_request ''POST'' ''/login'' [] [(''username'', [''alice'']), (''password'', [''wonderland''])]"

lemma login_gives_session_witness:
  "fst (userFromCookie sample_env (fst (handleLoginSubmit sample_portal sample_view sample_env None login_request (sample_db, new_writer)))
     (form_request ''GET'' ''/'' [(''Cookie'', [''ntunl_session=6162''])] [])) = Inr alice"
proof -
  let ?r2 = "form_request ''GET'' ''/'' [(''Cookie'', [''ntunl_session=6162''])] []"
  have f: "FormValue login_request ''username'' = userName alice" "FormValue login_request ''password'' = ''wonderland''"
    by code_simp+
  have h: "hex_encode ''ab'' = ''6162''" by code_simp
  have c: "Cookie ?r2 SessionCookieName = Some (hex_encode ''ab'')" by code_simp
  have t: "now sample_env \<le> stamp (now sample_env + SessionTTL) * second"
    by (simp add: sample_env_def stamp_def SessionTTL_def second_def)
  have pw: "CheckPassword sample_env (userHash alice) (FormValue login_request ''password'')"
    by (simp add: f CheckPassword_def sample_env_def alice_def)
  show ?thesis
    using login_gives_session [OF sample_db_wf _ _ _ f(1) pw _ _ prod.collapse [symmetric] c t]
    by (simp add: sample_env_def)
qed

definition cli_body :: string where
  "cli_body = print_json (JObj [(''name'', JStr ''ntunl-client''), (''password'', JStr ''wonderland''), (''username'', JStr ''alice'')])"

abbreviation cli_request :: Request where
  "cli_request \<equiv> (form_request ''POST'' ''/api/auth/login'' [] [])\<lparr>rBody := Some cli_body\<rparr>"

lemma cli_decoded:
  "decode_login (rBody cli_request) = Some \<lparr>lbUsername = ''alice'', lbPassword = ''wonderland'', lbName = ''ntunl-client''\<rparr>"
  by code_simp

lemma api_login_gives_token_witness:
  "fst (ResolveToken sample_env (fst (handleAPILogin sample_portal sample_view sample_env None cli_request (sample_db, new_writer)))
     (hex_encode ''ab'')) = Inr alice"
proof -
  have v: "valid_utf8 (userName alice)" "valid_utf8 (userRole alice)" "valid_utf8 (hex_encode ''ab'')"
    by code_simp+
  have h: "HashToken sample_env (hex_encode ''ab'') \<notin> tokHash ` set (tokens sample_db)"
    by (simp, code_simp)
  have e: "entropy sample_env = Some ''ab''" by (simp add: sample_env_def)
  have pw: "CheckPassword sample_env (userHash alice) ''wonderland''"
    by (simp add: CheckPassword_def sample_env_def alice_def)
  show ?thesis
    using api_login_gives_token [OF sample_db_wf _ _ _ _ cli_decoded _ _ e h v prod.collapse [symmetric]] pw
    by (simp add: seq_full_def)
qed

lemma bad_login_changes_nothing_witness:
  "same_data sample_db (fst (handleLoginSubmit sample_portal sample_view sample_env None
     (form_request ''POST'' ''/login'' [] [(''username'', [''alice'']), (''password'', [''queen''])]) (sample_db, new_writer)))"
proof -
  let ?r = "form_request ''POST'' ''/login'' [] [(''username'', [''alice'']), (''password'', [''queen''])]"
  have f: "FormValue ?r ''password'' = ''queen''" "decode_login (rBody ?r) = None" by code_simp+
  have "\<not> CheckPassword sample_env (userHash alice) ''queen''"
    by (simp add: CheckPassword_def sample_env_def alice_def)
  then show ?thesis
    using bad_login_changes_nothing [of sample_db ?r "''queen''" sample_env] f by simp
qed

end
