(* ===== verification/Indent.thy ===== *)
theory Indent
  imports Json
begin

text \<open>
  \<open>json.MarshalIndent(v, "", "  ")\<close>: the document of \<open>json.Marshal\<close> with each
  member and element on a line of its own, indented by two spaces a level, and its reading back.
\<close>

definition nl :: "nat \<Rightarrow> string" where
  "nl d = CHR 0x0A # replicate (2 * d) (CHR 0x20)"

fun print_indent :: "nat \<Rightarrow> json \<Rightarrow> string" where
  "print_indent d (JArr xs) =
     (if xs = [] then ''[]''
      else ''['' @ nl (Suc d) @ join (map (print_indent (Suc d)) xs) ('','' @ nl (Suc d)) @ nl d @ '']'')"
| "print_indent d (JObj kvs) =
     (if kvs = [] then ''{}''
      else ''{'' @ nl (Suc d) @ join (map (\<lambda>(k, v). quote k @ '': '' @ print_indent (Suc d) v) kvs) ('','' @ nl (Suc d))
             @ nl d @ ''}'')"
| "print_indent d j = print_json j"

subsection \<open>White space between values\<close>

lemma skip_ws_nl [simp]: "skip_ws (nl d @ s) = skip_ws s"
  by (induction d) (simp_all add: nl_def skip_ws_def)

lemma skip_ws_space [simp]: "skip_ws (CHR 0x20 # s) = skip_ws s"
  by (simp add: skip_ws_def)

lemma parse_after_ws:
  "parse_value n (nl d @ s) = parse_value n s" "parse_value n (CHR 0x20 # s) = parse_value n s"
  "parse_elems n (nl d @ s) = parse_elems n s" "parse_members n (nl d @ s) = parse_members n s"
proof -
  show v: "parse_value n (nl d @ s) = parse_value n s" for n s
    by (cases n) (simp_all only: parse_value.simps skip_ws_nl)
  show "parse_value n (CHR 0x20 # s) = parse_value n s"
    by (cases n) (simp_all only: parse_value.simps skip_ws_space)
  show "parse_elems n (nl d @ s) = parse_elems n s"
    by (cases n) (simp_all only: parse_elems.simps v)
  show "parse_members n (nl d @ s) = parse_members n s"
    by (cases n) (simp_all only: parse_members.simps expect_def skip_ws_nl)
qed

lemma delim_nl [simp]: "delim (nl d @ s)"
  by (simp add: nl_def delim_def)

subsection \<open>Reading back\<close>

definition indent_back :: "nat \<Rightarrow> json \<Rightarrow> bool" where
  "indent_back d j \<longleftrightarrow>
     (\<forall>n r. length (print_indent d j) < n \<longrightarrow> delim r \<longrightarrow> parse_value n (print_indent d j @ r) = Some (j, r))"

lemma indent_backD:
  "indent_back d j \<Longrightarrow> length (print_indent d j) < n \<Longrightarrow> delim r \<Longrightarrow> parse_value n (print_indent d j @ r) = Some (j, r)"
  by (simp add: indent_back_def)

lemma indent_backI:
  "(\<And>m r. length (print_indent d j) \<le> m \<Longrightarrow> delim r \<Longrightarrow> parse_value (Suc m) (print_indent d j @ r) = Some (j, r))
   \<Longrightarrow> indent_back d j"
  unfolding indent_back_def by (metis Suc_leI Suc_le_D Suc_le_mono)

lemma parse_elems_indent:
  assumes "xs \<noteq> []" "\<And>x. x \<in> set xs \<Longrightarrow> indent_back d x"
    "length (join (map (print_indent d) xs) ('','' @ nl d)) + 1 < n"
  shows "parse_elems n (join (map (print_indent d) xs) ('','' @ nl d) @ nl d' @ '']'' @ r) = Some (xs, r)"
  using assms
proof (induction xs arbitrary: n)
  case (Cons x xs)
  obtain m where n: "n = Suc m" using Cons.prems(3) by (cases n) auto
  have x: "indent_back d x" using Cons.prems by simp
  show ?case
  proof (cases xs)
    case Nil
    have "parse_value m (print_indent d x @ nl d' @ '']'' @ r) = Some (x, nl d' @ '']'' @ r)"
      using Cons.prems(3) n Nil by (intro indent_backD [OF x]) simp_all
    then show ?thesis by (simp add: n Nil parse_elems.simps)
  next
    case (Cons y ys)
    let ?t = "join (map (print_indent d) xs) ('','' @ nl d) @ nl d' @ '']'' @ r"
    have "parse_value m (print_indent d x @ '','' @ nl d @ ?t) = Some (x, '','' @ nl d @ ?t)"
      using Cons.prems(3) n Cons by (intro indent_backD [OF x]) simp_all
    moreover have "parse_elems m (nl d @ ?t) = Some (xs, r)"
      unfolding parse_after_ws by (rule Cons.IH) (use Cons.prems n Cons in \<open>simp_all add: nl_def\<close>)
    ultimately show ?thesis by (simp add: n Cons parse_elems.simps)
  qed
qed simp

abbreviation indent_member :: "nat \<Rightarrow> string \<times> json \<Rightarrow> string" where
  "indent_member d \<equiv> (\<lambda>(k, v). quote k @ '': '' @ print_indent d v)"

lemma parse_members_indent:
  assumes "kvs \<noteq> []" "\<And>k v. (k, v) \<in> set kvs \<Longrightarrow> valid_utf8 k \<and> indent_back d v"
    "length (join (map (indent_member d) kvs) ('','' @ nl d)) + 1 < n"
  shows "parse_members n (join (map (indent_member d) kvs) ('','' @ nl d) @ nl d' @ ''}'' @ r) = Some (kvs, r)"
  using assms
proof (induction kvs arbitrary: n)
  case (Cons kv kvs)
  obtain k v where kv: "kv = (k, v)" by fastforce
  obtain m where n: "n = Suc m" using Cons.prems(3) by (cases n) auto
  have v: "indent_back d v" "valid_utf8 k" using Cons.prems kv by auto
  note s = quote_def parse_quote_body [OF v(2)] parse_after_ws
  show ?case
  proof (cases kvs)
    case Nil
    have "parse_value m (print_indent d v @ nl d' @ ''}'' @ r) = Some (v, nl d' @ ''}'' @ r)"
      using Cons.prems(3) n kv Nil by (intro indent_backD [OF v(1)]) simp_all
    then show ?thesis by (simp add: n kv Nil s parse_members.simps)
  next
    case (Cons y ys)
    let ?t = "join (map (indent_member d) kvs) ('','' @ nl d) @ nl d' @ ''}'' @ r"
    have "parse_value m (print_indent d v @ '','' @ nl d @ ?t) = Some (v, '','' @ nl d @ ?t)"
      using Cons.prems(3) n Cons kv by (intro indent_backD [OF v(1)]) simp_all
    moreover have "parse_members m (nl d @ ?t) = Some (kvs, r)"
      unfolding parse_after_ws
    proof (rule Cons.IH)
      show "\<And>k v. (k, v) \<in> set kvs \<Longrightarrow> valid_utf8 k \<and> indent_back d v" by (rule Cons.prems(2)) simp
    qed (use Cons.prems(3) n Cons kv in \<open>simp_all add: nl_def\<close>)
    ultimately show ?thesis by (simp add: n kv Cons s parse_members.simps)
  qed
qed simp

lemma indent_hd:
  assumes "json_ok j"
  obtains c s where "print_indent d j = c # s"
    "c \<notin> set [CHR 0x20, CHR 0x09, CHR 0x0A, CHR 0x0D]" "c \<noteq> CHR '']''"
proof (cases "(\<exists>xs. j = JArr xs) \<or> (\<exists>kvs. j = JObj kvs)")
  case True
  then have "\<exists>c s. print_indent d j = c # s \<and> c \<in> set ''[{''"
    by (cases j) (auto intro: exI [of _ "[]"])
  then show thesis using that by auto
next
  case False
  then have p: "print_indent d j = print_json j" by (cases j) simp_all
  obtain c s where "print_json j = c # s" "c \<notin> set [CHR 0x20, CHR 0x09, CHR 0x0A, CHR 0x0D]" "c \<notin> set '',:]}''"
    by (rule print_json_hd [OF assms])
  then show thesis using that p by simp
qed

lemma indent_back_arr:
  assumes "\<And>x. x \<in> set xs \<Longrightarrow> json_ok x \<and> indent_back (Suc d) x"
  shows "indent_back d (JArr xs)"
proof (rule indent_backI)
  fix m r assume n: "length (print_indent d (JArr xs)) \<le> m" and "delim r"
  show "parse_value (Suc m) (print_indent d (JArr xs) @ r) = Some (JArr xs, r)"
  proof (cases xs)
    case Nil
    then show ?thesis by (simp add: parse_value.simps)
  next
    case (Cons x ys)
    let ?t = "join (map (print_indent (Suc d)) xs) ('','' @ nl (Suc d)) @ nl d @ '']'' @ r"
    have e: "parse_elems m ?t = Some (xs, r)"
      using assms n Cons by (intro parse_elems_indent) auto
    obtain c s where c: "print_indent (Suc d) x = c # s" "c \<notin> set [CHR 0x20, CHR 0x09, CHR 0x0A, CHR 0x0D]" "c \<noteq> CHR '']''"
      using indent_hd [of x "Suc d"] assms Cons by auto
    then obtain t where "?t = c # t" using Cons by (cases ys) auto
    then show ?thesis using e c Cons by (simp add: parse_value.simps parse_after_ws)
  qed
qed

lemma indent_back_obj:
  assumes "\<And>k v. (k, v) \<in> set kvs \<Longrightarrow> valid_utf8 k \<and> indent_back (Suc d) v"
  shows "indent_back d (JObj kvs)"
proof (rule indent_backI)
  fix m r assume n: "length (print_indent d (JObj kvs)) \<le> m" and "delim r"
  show "parse_value (Suc m) (print_indent d (JObj kvs) @ r) = Some (JObj kvs, r)"
  proof (cases kvs)
    case Nil
    then show ?thesis by (simp add: parse_value.simps)
  next
    case (Cons kv ys)
    let ?t = "join (map (indent_member (Suc d)) kvs) ('','' @ nl (Suc d)) @ nl d @ ''}'' @ r"
    have e: "parse_members m ?t = Some (kvs, r)"
      by (rule parse_members_indent [OF _ assms]) (use n Cons in simp_all)
    obtain t where "?t = CHR 0x22 # t"
      using Cons by (cases ys; cases kv) (auto simp: quote_def)
    then show ?thesis using e Cons by (simp add: parse_value.simps parse_after_ws)
  qed
qed

lemma json_ok_indent_back: "json_ok j \<Longrightarrow> indent_back d j"
proof (induction j arbitrary: d rule: json_ok.induct)
  case (3 xs)
  then show ?case by (intro indent_back_arr) (auto simp: list_all_iff)
next
  case (4 kvs)
  show ?case
  proof (rule indent_back_obj)
    show "valid_utf8 k \<and> indent_back (Suc d) v" if "(k, v) \<in> set kvs" for k v
      using 4(1) [OF that refl] 4(2) that by (auto simp: list_all_iff)
  qed
next
  case (1 l)
  then show ?case by (intro indent_backI) (simp add: parse_number_value)
qed (rule indent_backI; simp add: parse_value.simps has_prefix_def quote_def parse_quote_body)+

theorem parse_json_indent: "json_ok j \<Longrightarrow> parse_json (print_indent 0 j) = Some j"
  using indent_backD [OF json_ok_indent_back, of j 0 _ "[]"] by (simp add: parse_json_def)

end
