(* ===== verification/Address.thy ===== *)
theory Address
  imports Http
begin

text \<open>
  What the client uses of \<open>net\<close> and \<open>net/url\<close> to find the host in an address: splitting off a
  port, and the host name of a URL. A URL that does not parse is \<open>None\<close>; the zone of an IPv6
  address is left out, a bracketed host with a \<open>%\<close> being refused.
\<close>

subsection \<open>Cutting strings\<close>

definition split_last :: "char \<Rightarrow> string \<Rightarrow> (string \<times> string) option" where
  "split_last c s =
     (if c \<in> set s
      then Some (rev (drop 1 (dropWhile (\<lambda>d. d \<noteq> c) (rev s))), rev (takeWhile (\<lambda>d. d \<noteq> c) (rev s)))
      else None)"

text \<open>\<open>strings.Index(s, sub)\<close>, as the text after the first occurrence.\<close>

fun after_sub :: "string \<Rightarrow> string \<Rightarrow> string option" where
  "after_sub sub [] = (if sub = [] then Some [] else None)"
| "after_sub sub (c # s) =
     (if has_prefix (c # s) sub then Some (drop (length sub) (c # s)) else after_sub sub s)"

subsection \<open>\<open>net.SplitHostPort\<close>\<close>

definition SplitHostPort :: "string \<Rightarrow> (string \<times> string) option" where
  "SplitHostPort s =
     (case split_last (CHR '':'') s of
        None \<Rightarrow> None
      | Some (h, p) \<Rightarrow>
          (if hd s = CHR ''['' then
             (let inside = drop 1 (takeWhile (\<lambda>c. c \<noteq> CHR '']'') s);
                  rest = drop 1 (dropWhile (\<lambda>c. c \<noteq> CHR '']'') s) in
              if CHR '']'' \<notin> set s \<or> rest = [] \<or> hd rest \<noteq> CHR '':'' \<or> CHR '':'' \<in> set (tl rest)
              then None
              else if CHR ''['' \<in> set (tl s) \<or> CHR '']'' \<in> set rest then None
              else Some (inside, tl rest))
           else if CHR '':'' \<in> set h then None
           else if CHR ''['' \<in> set s \<or> CHR '']'' \<in> set s then None
           else Some (h, p)))"

subsection \<open>\<open>url.Parse\<close> and \<open>Hostname\<close>\<close>

definition is_hex :: "char \<Rightarrow> bool" where
  "is_hex c \<longleftrightarrow> is_digit c \<or> (CHR ''a'' \<le> c \<and> c \<le> CHR ''f'') \<or> (CHR ''A'' \<le> c \<and> c \<le> CHR ''F'')"

definition hex_digit_val :: "char \<Rightarrow> nat" where
  "hex_digit_val c = (if is_digit c then of_char c - 48 else if CHR ''a'' \<le> c then of_char c - 87 else of_char c - 55)"

text \<open>Every \<open>%\<close> begins an escape.\<close>

fun good_escapes :: "string \<Rightarrow> bool" where
  "good_escapes [] = True"
| "good_escapes (c # s) =
     (if c = CHR ''%'' then (case s of a # b # s' \<Rightarrow> is_hex a \<and> is_hex b \<and> good_escapes s' | _ \<Rightarrow> False)
      else good_escapes s)"

definition scheme_char :: "char \<Rightarrow> bool" where
  "scheme_char c \<longleftrightarrow> is_alpha c \<or> is_digit c \<or> c \<in> set ''+-.''"

definition get_scheme :: "string \<Rightarrow> (string \<times> string) option" where
  "get_scheme s =
     (let pre = takeWhile scheme_char s; rest = dropWhile scheme_char s in
      if rest \<noteq> [] \<and> hd rest = CHR '':'' then
        (if pre = [] then None else if \<not> is_alpha (hd pre) then Some ([], s) else Some (pre, tl rest))
      else Some ([], s))"

definition userinfo_char :: "char \<Rightarrow> bool" where
  "userinfo_char c \<longleftrightarrow> is_alpha c \<or> is_digit c \<or> c \<in> set (CHR 0x27 # ''-._:~!$&()*+,;=%@'')"

definition host_char :: "char \<Rightarrow> bool" where
  "host_char c \<longleftrightarrow> is_alpha c \<or> is_digit c \<or> (128 :: nat) \<le> of_char c
     \<or> c \<in> set (CHR 0x27 # CHR 0x22 # ''!$&()*+,;=:[]<>-_.~'')"

text \<open>The escapes of a host: a byte that is not ASCII, or the \<open>%\<close> itself.\<close>

fun unescape_host :: "string \<Rightarrow> string option" where
  "unescape_host [] = Some []"
| "unescape_host (c # s) =
     (if c = CHR ''%'' then
        (case s of
           a # b # s' \<Rightarrow>
             (if \<not> (is_hex a \<and> is_hex b) \<or> (hex_digit_val a < 8 \<and> [a, b] \<noteq> ''25'') then None
              else map_option ((#) (char_of (16 * hex_digit_val a + hex_digit_val b))) (unescape_host s'))
         | _ \<Rightarrow> None)
      else if host_char c then map_option ((#) c) (unescape_host s) else None)"

definition valid_optional_port :: "string \<Rightarrow> bool" where
  "valid_optional_port p \<longleftrightarrow> p = [] \<or> (hd p = CHR '':'' \<and> list_all is_digit (tl p))"

definition parse_host :: "string \<Rightarrow> string option" where
  "parse_host host =
     (if has_prefix host ''['' then
        (case split_last (CHR '']'') host of
           None \<Rightarrow> None
         | Some (a, port) \<Rightarrow>
             (if \<not> valid_optional_port port \<or> CHR ''%'' \<in> set a then None else unescape_host host))
      else
        (case split_last (CHR '':'') host of
           None \<Rightarrow> unescape_host host
         | Some (a, port) \<Rightarrow> (if list_all is_digit port then unescape_host host else None)))"

definition parse_authority :: "string \<Rightarrow> string option" where
  "parse_authority authority =
     (case split_last (CHR ''@'') authority of
        None \<Rightarrow> parse_host authority
      | Some (user, host) \<Rightarrow>
          (if list_all userinfo_char user \<and> good_escapes user then parse_host host else None))"

text \<open>The host of a URL with its port, as the field \<open>Host\<close> has it.\<close>

definition url_host :: "string \<Rightarrow> string option" where
  "url_host raw = do {
     let u = takeWhile (\<lambda>c. c \<noteq> CHR ''#'') raw;
     let frag = drop 1 (dropWhile (\<lambda>c. c \<noteq> CHR ''#'') raw);
     (if list_ex (\<lambda>c. (of_char c :: nat) < 32 \<or> (of_char c :: nat) = 127) u \<or> \<not> good_escapes frag then None else Some ());
     (scheme, r) \<leftarrow> get_scheme u;
     let rest = takeWhile (\<lambda>c. c \<noteq> CHR ''?'') r;
     if \<not> has_prefix rest ''/'' then
       (if scheme \<noteq> [] then Some []
        else if CHR '':'' \<in> set (takeWhile (\<lambda>c. c \<noteq> CHR ''/'') rest) \<or> \<not> good_escapes rest then None
        else Some [])
     else if (scheme \<noteq> [] \<or> \<not> has_prefix rest ''///'') \<and> has_prefix rest ''//'' then do {
       h \<leftarrow> parse_authority (takeWhile (\<lambda>c. c \<noteq> CHR ''/'') (drop 2 rest));
       (if good_escapes (dropWhile (\<lambda>c. c \<noteq> CHR ''/'') (drop 2 rest)) then Some h else None)
     }
     else (if good_escapes rest then Some [] else None)
   }"

definition Hostname :: "string \<Rightarrow> string" where
  "Hostname hostport =
     (let host = (case split_last (CHR '':'') hostport of
            None \<Rightarrow> hostport
          | Some (h, p) \<Rightarrow> if list_all is_digit p then h else hostport)
      in if has_prefix host ''['' \<and> host \<noteq> [] \<and> last host = CHR '']'' then drop 1 (butlast host) else host)"

subsection \<open>Host names without a port, with one, and in a URL\<close>

definition plain_char :: "char \<Rightarrow> bool" where
  "plain_char c \<longleftrightarrow> is_alpha c \<or> is_digit c \<or> c \<in> set ''-.''"

definition plain_host :: "string \<Rightarrow> bool" where
  "plain_host h \<longleftrightarrow> h \<noteq> [] \<and> list_all plain_char h"

text \<open>The authority of an address: a host name, perhaps with a port.\<close>

definition authority_of :: "string \<Rightarrow> string \<Rightarrow> bool" where
  "authority_of h a \<longleftrightarrow> plain_host h \<and> (a = h \<or> (\<exists>p. p \<noteq> [] \<and> list_all is_digit p \<and> a = h @ '':'' @ p))"

lemma plain_char_props:
  assumes "plain_char c"
  shows "c \<noteq> CHR '':''" "c \<noteq> CHR ''/''" "c \<noteq> CHR ''['' " "c \<noteq> CHR '']''" "c \<noteq> CHR ''%''" "c \<noteq> CHR ''#''" "c \<noteq> CHR ''?''"
    "c \<noteq> CHR ''@''" "host_char c" "\<not> (of_char c :: nat) < 32" "(of_char c :: nat) \<noteq> 127"
  using assms by (auto simp: plain_char_def is_alpha_def is_digit_def host_char_def less_eq_char_def less_char_def)

lemma digit_props:
  assumes "is_digit c"
  shows "c \<noteq> CHR '':''" "c \<noteq> CHR ''/''" "c \<noteq> CHR ''['' " "c \<noteq> CHR '']''" "c \<noteq> CHR ''%''" "c \<noteq> CHR ''#''" "c \<noteq> CHR ''?''"
    "c \<noteq> CHR ''@''" "host_char c" "\<not> (of_char c :: nat) < 32" "(of_char c :: nat) \<noteq> 127"
  using plain_char_props [of c] assms by (auto simp: plain_char_def)

lemma split_last_none [simp]: "c \<notin> set s \<Longrightarrow> split_last c s = None"
  by (simp add: split_last_def)

lemma split_last_some [simp]: "c \<notin> set p \<Longrightarrow> split_last c (h @ c # p) = Some (h, p)"
proof -
  assume "c \<notin> set p"
  then have "\<And>x. x \<in> set (rev p) \<Longrightarrow> x \<noteq> c" by auto
  then have "takeWhile (\<lambda>d. d \<noteq> c) (rev p @ c # rev h) = rev p" "dropWhile (\<lambda>d. d \<noteq> c) (rev p @ c # rev h) = c # rev h"
    by (subst takeWhile_append2 dropWhile_append2; simp)+
  then show ?thesis by (simp add: split_last_def)
qed

lemma after_sub_missing: "c \<in> set sub \<Longrightarrow> c \<notin> set s \<Longrightarrow> after_sub sub s = None"
proof (induction s)
  case (Cons d s)
  have "\<not> has_prefix (d # s) sub"
    using Cons.prems by (metis has_prefix_iff in_set_conv_decomp append_is_Nil_conv Un_iff set_append)
  then show ?case using Cons by simp
qed auto

lemma authority_props:
  assumes "authority_of h a"
  shows "CHR ''/'' \<notin> set a" "CHR ''['' \<notin> set a" "CHR '']'' \<notin> set a" "CHR ''%'' \<notin> set a" "CHR ''#'' \<notin> set a"
    "CHR ''?'' \<notin> set a" "CHR ''@'' \<notin> set a" "list_all host_char a"
    "\<not> list_ex (\<lambda>c. (of_char c :: nat) < 32 \<or> (of_char c :: nat) = 127) a" "a \<noteq> []"
proof -
  have h: "\<And>c. c \<in> set h \<Longrightarrow> plain_char c" "h \<noteq> []"
    using assms by (auto simp: authority_of_def plain_host_def list_all_iff)
  have c: "c \<in> set a \<Longrightarrow> plain_char c \<or> c = CHR '':''" for c
  proof -
    have "is_digit c \<Longrightarrow> plain_char c" by (simp add: plain_char_def)
    then show "c \<in> set a \<Longrightarrow> plain_char c \<or> c = CHR '':''"
      using assms h(1) by (auto simp: authority_of_def list_all_iff)
  qed
  have n: "\<not> plain_char CHR ''/''" "\<not> plain_char CHR ''[''" "\<not> plain_char CHR '']''" "\<not> plain_char CHR ''%''"
      "\<not> plain_char CHR ''#''" "\<not> plain_char CHR ''?''" "\<not> plain_char CHR ''@''"
    by code_simp+
  have out: "x \<notin> set a" if "\<not> plain_char x" "x \<noteq> CHR '':''" for x using c that by blast
  show "CHR ''/'' \<notin> set a" "CHR ''['' \<notin> set a" "CHR '']'' \<notin> set a" "CHR ''%'' \<notin> set a" "CHR ''#'' \<notin> set a"
    "CHR ''?'' \<notin> set a" "CHR ''@'' \<notin> set a"
    by (simp_all add: out n)
  have "host_char CHR '':''" by code_simp
  then show "list_all host_char a" using c plain_char_props(9) by (auto simp: list_all_iff)
  have "\<not> (of_char CHR '':'' :: nat) < 32 \<and> (of_char CHR '':'' :: nat) \<noteq> 127" by simp
  then show "\<not> list_ex (\<lambda>c. (of_char c :: nat) < 32 \<or> (of_char c :: nat) = 127) a"
    using c plain_char_props(10,11) by (fastforce simp: list_ex_iff)
  show "a \<noteq> []" using assms h(2) by (auto simp: authority_of_def)
qed

lemma unescape_host_plain: "list_all host_char s \<Longrightarrow> CHR ''%'' \<notin> set s \<Longrightarrow> unescape_host s = Some s"
  by (induction s) auto

lemma good_escapes_plain: "CHR ''%'' \<notin> set s \<Longrightarrow> good_escapes s"
  by (induction s) auto

lemma authority_split:
  assumes "authority_of h a"
  shows "(a = h \<and> split_last (CHR '':'') a = None) \<or>
    (\<exists>p. list_all is_digit p \<and> a = h @ '':'' @ p \<and> split_last (CHR '':'') a = Some (h, p))"
proof -
  have "CHR '':'' \<notin> set h"
    using assms plain_char_props(1) by (auto simp: authority_of_def plain_host_def list_all_iff)
  moreover have "CHR '':'' \<notin> set p" if "list_all is_digit p" for p
    using that digit_props(1) by (auto simp: list_all_iff)
  ultimately show ?thesis using assms by (auto simp: authority_of_def)
qed

lemma authority_host: "authority_of h a \<Longrightarrow> parse_authority a = Some a \<and> Hostname a = h"
proof -
  assume a: "authority_of h a"
  note p = authority_props [OF a]
  have "\<not> has_prefix a ''[''" using p(2,10) by (cases a) (auto simp: has_prefix_def)
  moreover have "\<not> has_prefix h ''[''"
    using a plain_char_props(3) by (cases h) (auto simp: authority_of_def plain_host_def has_prefix_def)
  ultimately show ?thesis
    using authority_split [OF a] p(4,7,8)
    by (auto simp: parse_authority_def parse_host_def Hostname_def unescape_host_plain)
qed

lemma split_authority:
  assumes "authority_of h a"
  shows "SplitHostPort a = (if a = h then None else Some (h, drop (Suc (length h)) a))"
proof -
  note p = authority_props [OF assms]
  have "hd a \<noteq> CHR ''[''" using p(2,10) by (cases a) auto
  moreover have "CHR '':'' \<notin> set h"
    using assms plain_char_props(1) by (auto simp: authority_of_def plain_host_def list_all_iff)
  ultimately show ?thesis
    using authority_split [OF assms] p(2,3) by (auto simp: SplitHostPort_def)
qed

text \<open>A path after the authority, without escapes, query or fragment.\<close>

definition plain_path :: "string \<Rightarrow> bool" where
  "plain_path s \<longleftrightarrow> (s = [] \<or> hd s = CHR ''/'') \<and>
     list_all (\<lambda>c. c \<notin> set ''#?%'' \<and> \<not> (of_char c :: nat) < 32 \<and> (of_char c :: nat) \<noteq> 127) s"

lemma scheme_names: "scheme_char CHR ''h''" "scheme_char CHR ''t''" "scheme_char CHR ''p''" "scheme_char CHR ''s''"
    "\<not> scheme_char CHR '':''" "is_alpha CHR ''h''"
  by code_simp+

lemma url_host_steps:
  assumes "takeWhile (\<lambda>c. c \<noteq> CHR ''#'') u = u" "dropWhile (\<lambda>c. c \<noteq> CHR ''#'') u = []"
    and "\<not> list_ex (\<lambda>c. (of_char c :: nat) < 32 \<or> (of_char c :: nat) = 127) u"
    and "get_scheme u = Some (scheme, r)" "scheme \<noteq> []"
    and "takeWhile (\<lambda>c. c \<noteq> CHR ''?'') r = ''//'' @ a @ s"
    and "takeWhile (\<lambda>c. c \<noteq> CHR ''/'') (a @ s) = a" "dropWhile (\<lambda>c. c \<noteq> CHR ''/'') (a @ s) = s"
    and "good_escapes s" "parse_authority a = Some a"
  shows "url_host u = Some a"
  unfolding url_host_def Let_def assms(1,2) using assms(3-) by (simp add: has_prefix_def)

lemma url_host_plain:
  assumes "authority_of h a" "plain_path s" "scheme \<in> {''http'', ''https''}"
  shows "url_host (scheme @ ''://'' @ a @ s) = Some a"
proof -
  note p = authority_props [OF assms(1)]
  have ps: "\<And>c. c \<in> set s \<Longrightarrow> c \<notin> set ''#?%'' \<and> \<not> (of_char c :: nat) < 32 \<and> (of_char c :: nat) \<noteq> 127"
    using assms(2) by (simp add: plain_path_def list_all_iff)
  let ?u = "scheme @ ''://'' @ a @ s"
  have f: "CHR ''#'' \<notin> set ?u" "CHR ''?'' \<notin> set (''//'' @ a @ s)" using p(5,6) ps assms(3) by auto
  have tw: "takeWhile (\<lambda>c. c \<noteq> CHR ''#'') ?u = ?u" "dropWhile (\<lambda>c. c \<noteq> CHR ''#'') ?u = []"
    using f(1) by (auto simp: takeWhile_eq_all_conv)
  have tq: "takeWhile (\<lambda>c. c \<noteq> CHR ''?'') (''//'' @ a @ s) = ''//'' @ a @ s"
    using f(2) by (auto simp: takeWhile_eq_all_conv)
  have "\<not> list_ex (\<lambda>c. (of_char c :: nat) < 32 \<or> (of_char c :: nat) = 127) s"
    using ps by (auto simp: list_ex_iff)
  then have ctl: "\<not> list_ex (\<lambda>c. (of_char c :: nat) < 32 \<or> (of_char c :: nat) = 127) ?u"
    using p(9) assms(3) by auto
  have "scheme = ''http'' \<or> scheme = ''https''" using assms(3) by simp
  then have sc: "get_scheme ?u = Some (scheme, ''//'' @ a @ s)"
    by (elim disjE) (simp_all add: get_scheme_def scheme_names Let_def)
  have "\<And>c. c \<in> set a \<Longrightarrow> c \<noteq> CHR ''/''" using p(1) by auto
  then have ta: "takeWhile (\<lambda>c. c \<noteq> CHR ''/'') (a @ s) = a" "dropWhile (\<lambda>c. c \<noteq> CHR ''/'') (a @ s) = s"
    using assms(2) by (cases s; auto simp: plain_path_def takeWhile_append2 dropWhile_append2)+
  have ge: "good_escapes s" using ps by (intro good_escapes_plain) auto
  show ?thesis
    by (rule url_host_steps [OF tw ctl sc _ tq ta ge]) (use authority_host [OF assms(1)] assms(3) in auto)
qed

end
