(* ===== verification/Credentials.thy ===== *)
theory Credentials
  imports Indent Protocol Address
begin

text \<open>
  The client's stored tokens (\<open>internal/client/credentials.go\<close>). The file system is explicit: the
  directory \<open>os.UserConfigDir\<close> gives, the files with their permissions, and which of the calls
  fail. \<open>os.WriteFile\<close> truncates the file before it writes, so a failed write can leave a
  prefix of the data.
\<close>

subsection \<open>Files\<close>

datatype write_result = WriteOk | OpenFails | WriteBreaks nat

record Disk =
  dkConfigDir :: "string option"
  dkFiles :: "(string, nat \<times> string) gomap"
  dkReadFails :: bool
  dkMkdirFails :: bool
  dkWrite :: write_result

text \<open>\<open>os.WriteFile\<close> sets the permissions of a file it creates, and keeps those of one there.\<close>

definition WriteFile :: "string \<Rightarrow> string \<Rightarrow> nat \<Rightarrow> Disk \<Rightarrow> bool \<times> Disk" where
  "WriteFile path data perm d =
     (let mode = (case fmlookup (dkFiles d) path of Some (m, _) \<Rightarrow> m | None \<Rightarrow> perm) in
      case dkWrite d of
        OpenFails \<Rightarrow> (False, d)
      | WriteBreaks n \<Rightarrow> (False, d\<lparr>dkFiles := fmupd path (mode, take n data) (dkFiles d)\<rparr>)
      | WriteOk \<Rightarrow> (True, d\<lparr>dkFiles := fmupd path (mode, data) (dkFiles d)\<rparr>))"

subsection \<open>The store\<close>

record HostCred =
  hcToken :: string
  hcUsername :: string

type_synonym Credentials = "(string, HostCred) gomap"

datatype cred_error = NoConfigDir | ReadFailed | BadJSON | MkdirFailed | WriteFileFailed

text \<open>\<open>filepath.Join\<close> from an absolute directory: empty and dot elements go, \<open>..\<close> takes one back.\<close>

definition clean_step :: "string \<Rightarrow> string list \<Rightarrow> string list" where
  "clean_step w seen = (if w = [] \<or> w = ''.'' then seen else if w = ''..'' then tl seen else w # seen)"

definition join_path :: "string \<Rightarrow> string list \<Rightarrow> string" where
  "join_path dir ws = concat (map (\<lambda>w. CHR ''/'' # w) (rev (fold clean_step (split_byte (CHR ''/'') dir @ ws) [])))"

definition credentialsPath :: "Disk \<Rightarrow> string option" where
  "credentialsPath d = map_option (\<lambda>dir. join_path dir [''ntunl'', ''credentials.json'']) (dkConfigDir d)"

definition host_cred_json :: "HostCred \<Rightarrow> json" where
  "host_cred_json h = JObj [(''token'', JStr (hcToken h)), (''username'', JStr (hcUsername h))]"

definition credentials_json :: "Credentials \<Rightarrow> json" where
  "credentials_json c = JObj [(''hosts'', JObj (map (\<lambda>(k, h). (k, host_cred_json h)) (sorted_list_of_fmap c)))]"

definition set_host_cred :: "HostCred \<Rightarrow> string \<Rightarrow> json \<Rightarrow> HostCred option" where
  "set_host_cred h k j =
     (if same_field k ''token'' then map_option (\<lambda>x. h\<lparr>hcToken := x\<rparr>) (set_string (hcToken h) j)
      else if same_field k ''username'' then map_option (\<lambda>x. h\<lparr>hcUsername := x\<rparr>) (set_string (hcUsername h) j)
      else Some h)"

definition zero_cred :: HostCred where
  "zero_cred = \<lparr>hcToken = [], hcUsername = []\<rparr>"

fun set_hosts :: "Credentials \<Rightarrow> (string \<times> json) list \<Rightarrow> Credentials option" where
  "set_hosts m [] = Some m"
| "set_hosts m ((k, v) # kvs) = do {
     h \<leftarrow> decode_struct set_host_cred zero_cred v;
     set_hosts (fmupd k h m) kvs
   }"

definition set_credentials :: "Credentials \<Rightarrow> string \<Rightarrow> json \<Rightarrow> Credentials option" where
  "set_credentials c k j =
     (if same_field k ''hosts'' then
        (case j of JObj kvs \<Rightarrow> set_hosts c kvs | JNull \<Rightarrow> Some fmempty | _ \<Rightarrow> None)
      else Some c)"

definition decode_credentials :: "string \<Rightarrow> Credentials option" where
  "decode_credentials data = do { j \<leftarrow> parse_json data; decode_struct set_credentials fmempty j }"

definition LoadCredentials :: "Disk \<Rightarrow> cred_error + Credentials" where
  "LoadCredentials d =
     (case credentialsPath d of
        None \<Rightarrow> Inl NoConfigDir
      | Some path \<Rightarrow>
          (case fmlookup (dkFiles d) path of
             None \<Rightarrow> Inr fmempty
           | Some (mode, data) \<Rightarrow>
               (if dkReadFails d then Inl ReadFailed
                else (case decode_credentials data of None \<Rightarrow> Inl BadJSON | Some c \<Rightarrow> Inr c))))"

definition Save :: "Credentials \<Rightarrow> Disk \<Rightarrow> (cred_error + unit) \<times> Disk" where
  "Save c d =
     (case credentialsPath d of
        None \<Rightarrow> (Inl NoConfigDir, d)
      | Some path \<Rightarrow>
          (if dkMkdirFails d then (Inl MkdirFailed, d)
           else (case WriteFile path (print_indent 0 (credentials_json c)) 384 d of
                   (False, d') \<Rightarrow> (Inl WriteFileFailed, d')
                 | (True, d') \<Rightarrow> (Inr (), d'))))"

subsection \<open>Keys\<close>

definition HostKey :: "string \<Rightarrow> string" where
  "HostKey addr =
     (let bare = (\<lambda>s. case SplitHostPort s of Some (h, _) \<Rightarrow> to_lower h | None \<Rightarrow> to_lower s) in
      case after_sub ''://'' addr of
        None \<Rightarrow> bare addr
      | Some rest \<Rightarrow>
          (case url_host addr of
             Some hp \<Rightarrow> if Hostname hp \<noteq> [] then to_lower (Hostname hp) else bare rest
           | None \<Rightarrow> bare rest))"

definition Get :: "Credentials \<Rightarrow> string \<Rightarrow> HostCred option" where
  "Get c addr = fmlookup c (HostKey addr)"

definition Set :: "string \<Rightarrow> HostCred \<Rightarrow> Credentials \<Rightarrow> Credentials" where
  "Set addr hc c = fmupd (HostKey addr) hc c"

definition Delete :: "string \<Rightarrow> Credentials \<Rightarrow> Credentials" where
  "Delete addr c = fmdrop (HostKey addr) c"

subsection \<open>The interface of a keyed store\<close>

text \<open>What the login and the tunnels rely on: a credential is found under every address of its host.\<close>

locale keyed_store =
  fixes get :: "'c \<Rightarrow> 'a \<Rightarrow> 'v option" and put :: "'a \<Rightarrow> 'v \<Rightarrow> 'c \<Rightarrow> 'c" and del :: "'a \<Rightarrow> 'c \<Rightarrow> 'c"
    and same :: "'a \<Rightarrow> 'a \<Rightarrow> bool"
  assumes get_put: "get (put a v c) b = (if same b a then Some v else get c b)"
    and get_del: "get (del a c) b = (if same b a then None else get c b)"
begin

lemma get_puts:
  "get (fold (\<lambda>a. put a v) as c) b = (if \<exists>a\<in>set as. same b a then Some v else get c b)"
  by (induction as arbitrary: c) (auto simp: get_put)

lemma get_dels:
  "get (fold del as c) b = (if \<exists>a\<in>set as. same b a then None else get c b)"
  by (induction as arbitrary: c) (auto simp: get_del)

end

interpretation creds: keyed_store Get Set Delete "\<lambda>a b. HostKey a = HostKey b"
  by unfold_locales (simp_all add: Get_def Set_def Delete_def)

subsection \<open>Reading back what was saved\<close>

definition cred_ok :: "Credentials \<Rightarrow> bool" where
  "cred_ok c \<longleftrightarrow> fmpred (\<lambda>k h. valid_utf8 k \<and> valid_utf8 (hcToken h) \<and> valid_utf8 (hcUsername h)) c"

lemma cred_fields [simp]: "\<not> same_field ''username'' ''token''"
  by code_simp

lemma decode_host_cred [simp]: "decode_struct set_host_cred zero_cred (host_cred_json h) = Some h"
  by (simp add: decode_struct_def host_cred_json_def set_host_cred_def set_string_def zero_cred_def)

lemma set_hosts_all: "set_hosts m (map (\<lambda>(k, h). (k, host_cred_json h)) kvs) = Some (m ++\<^sub>f fmap_of_list (rev kvs))"
  by (induction kvs arbitrary: m) auto

lemma credentials_json_ok: "cred_ok c \<Longrightarrow> json_ok (credentials_json c)"
proof -
  assume "cred_ok c"
  then have "list_all (\<lambda>(k, h). valid_utf8 k \<and> valid_utf8 (hcToken h) \<and> valid_utf8 (hcUsername h)) (sorted_list_of_fmap c)"
    by (simp add: cred_ok_def fmpred_iff)
  then show ?thesis
    by (auto simp: credentials_json_def host_cred_json_def list_all_iff ascii_valid_utf8)
qed

lemma decode_saved: "cred_ok c \<Longrightarrow> decode_credentials (print_indent 0 (credentials_json c)) = Some c"
  by (simp add: decode_credentials_def parse_json_indent credentials_json_ok)
    (simp add: decode_struct_def credentials_json_def set_credentials_def set_hosts_all fmap_of_sorted_list)

lemma Save_effect:
  assumes "Save c d = (Inr (), d')"
  obtains path mode where "credentialsPath d = Some path" "credentialsPath d' = Some path" "dkReadFails d' = dkReadFails d"
    "fmlookup (dkFiles d') path = Some (mode, print_indent 0 (credentials_json c))"
    "mode = (case fmlookup (dkFiles d) path of Some (m, _) \<Rightarrow> m | None \<Rightarrow> 384)"
  using assms by (cases "credentialsPath d"; cases "dkWrite d")
    (auto simp: Save_def WriteFile_def credentialsPath_def Let_def split: if_splits prod.splits)

lemma load_saved:
  assumes "cred_ok c" "Save c d = (Inr (), d')" "\<not> dkReadFails d"
  shows "LoadCredentials d' = Inr c"
  using assms by (elim Save_effect) (simp add: LoadCredentials_def decode_saved)

subsection \<open>Properties\<close>

text \<open>
  An address keys the same host however it is written: as a bare host name, with a port, or as an
  \<open>http\<close> URL with a path, in any case of letters.
\<close>

lemma host_key_uniform:
  assumes "authority_of h a" "plain_path s" "scheme \<in> {''http'', ''https''}"
  shows "HostKey a = to_lower h \<and> HostKey (scheme @ ''://'' @ a @ s) = to_lower h"
proof
  have "after_sub ''://'' a = None"
    by (rule after_sub_missing [of "CHR ''/''"]) (simp_all add: authority_props(1) [OF assms(1)])
  then show "HostKey a = to_lower h"
    by (simp add: HostKey_def split_authority [OF assms(1)] Let_def)
  have "scheme = ''http'' \<or> scheme = ''https''" using assms(3) by simp
  then obtain r where "after_sub ''://'' (scheme @ ''://'' @ a @ s) = Some r"
    by (elim disjE) (simp_all add: has_prefix_def)
  moreover have "h \<noteq> []" using assms(1) by (simp add: authority_of_def plain_host_def)
  ultimately show "HostKey (scheme @ ''://'' @ a @ s) = to_lower h"
    using authority_host [OF assms(1)] by (simp only: HostKey_def url_host_plain [OF assms]) (simp add: Let_def)
qed

text \<open>
  C33. What is saved is read back: after \<open>Save\<close> succeeds the file is created readable by its
  owner only, and loading it gives the same credentials for every address.
\<close>

theorem credentials_roundtrip:
  assumes "cred_ok c" "Save c d = (Inr (), d')" "\<not> dkReadFails d"
  shows "LoadCredentials d' = Inr c \<and>
    (\<exists>path. credentialsPath d = Some path \<and>
       (fmlookup (dkFiles d) path = None \<longrightarrow> map_option fst (fmlookup (dkFiles d') path) = Some 384))"
  using load_saved [OF assms] Save_effect [OF assms(2)] by fastforce

subsection \<open>Concrete credentials\<close>

definition sample_creds :: Credentials where
  "sample_creds = Set ''https://Host.example:8002/login'' \<lparr>hcToken = ''ntl_t'', hcUsername = ''alice''\<rparr> fmempty"

definition sample_disk :: Disk where
  "sample_disk = \<lparr>dkConfigDir = Some ''/home/a/.config'', dkFiles = fmempty, dkReadFails = False,
     dkMkdirFails = False, dkWrite = WriteOk\<rparr>"

lemma sample_host_key:
  "HostKey ''Host.example:8001'' = ''host.example'' \<and> HostKey (''https'' @ ''://'' @ ''Host.example:8001'' @ ''/login'') = ''host.example''"
proof -
  have "plain_host ''Host.example''" "list_all is_digit ''8001''" by code_simp+
  moreover have "''Host.example:8001'' = ''Host.example'' @ '':'' @ ''8001''" by simp
  ultimately have a: "authority_of ''Host.example'' ''Host.example:8001''"
    unfolding authority_of_def by (metis list.distinct(1))
  have p: "plain_path ''/login''" by code_simp
  have "to_lower ''Host.example'' = ''host.example''" by code_simp
  then show ?thesis using host_key_uniform [OF a p, of "''https''"] by simp
qed

lemma sample_creds_ok: "cred_ok sample_creds"
proof -
  have "valid_utf8 (HostKey ''https://Host.example:8002/login'')" "valid_utf8 ''ntl_t''" "valid_utf8 ''alice''" by code_simp+
  then show ?thesis by (auto simp: cred_ok_def sample_creds_def Set_def fmpred_iff split: if_splits)
qed

lemma sample_path: "credentialsPath sample_disk = Some ''/home/a/.config/ntunl/credentials.json''"
  by code_simp

lemma credentials_roundtrip_witness:
  "LoadCredentials (snd (Save sample_creds sample_disk)) = Inr sample_creds"
proof -
  have "Save sample_creds sample_disk = (Inr (), snd (Save sample_creds sample_disk))"
    by (simp add: Save_def sample_path) (simp add: sample_disk_def WriteFile_def)
  moreover have "\<not> dkReadFails sample_disk" by (simp add: sample_disk_def)
  ultimately show ?thesis using credentials_roundtrip [OF sample_creds_ok] by blast
qed

end
