(* ===== verification/Client.thy ===== *)
theory Client
  imports Credentials TunnelClient
begin

text \<open>
  Signing in and out (\<open>internal/client/login.go\<close>), building a client from its configuration
  (\<open>client.go\<close>) and the view of the inspector (\<open>inspector.go\<close>). The terminal, the exchange with the
  portal and the regular expressions are arguments; of what is printed, the keys of the hosts are kept.
\<close>

subsection \<open>\<open>New\<close>\<close>

record Client =
  clCfg :: Config
  clLogs :: logs
  clTunnels :: "tunnelClient list"

datatype new_error = CredentialsFailed cred_error | NoToken string | BadPattern

fun new_tunnels :: "(string \<Rightarrow> regex option) \<Rightarrow> Credentials \<Rightarrow> TunnelSetting list \<Rightarrow> tunnelClient list \<Rightarrow> new_error + tunnelClient list" where
  "new_tunnels compile creds [] tcs = Inr tcs"
| "new_tunnels compile creds (t # ts) tcs =
     (case Get creds (tsNtunlAddress t) of
        None \<Rightarrow> Inl (NoToken (HostKey (tsNtunlAddress t)))
      | Some hc \<Rightarrow>
          (if hcToken hc = [] then Inl (NoToken (HostKey (tsNtunlAddress t)))
           else (case newTunnelClient compile t (hcToken hc) of
                   None \<Rightarrow> Inl BadPattern
                 | Some tc \<Rightarrow> new_tunnels compile creds ts (tcs @ [tc]))))"

definition NewClient :: "(string \<Rightarrow> regex option) \<Rightarrow> Disk \<Rightarrow> Config \<Rightarrow> new_error + Client" where
  "NewClient compile d cfg =
     (case LoadCredentials d of
        Inl e \<Rightarrow> Inl (CredentialsFailed e)
      | Inr creds \<Rightarrow>
          (case new_tunnels compile creds (cfTunnels cfg) [] of
             Inl e \<Rightarrow> Inl e
           | Inr tcs \<Rightarrow> Inr \<lparr>clCfg = cfg, clLogs = [], clTunnels = tcs\<rparr>))"

subsection \<open>Signing in and out\<close>

text \<open>\<open>promptLine\<close> and \<open>promptPassword\<close>: the line read, or an error that is not the end of input.\<close>

definition prompt :: "string option \<Rightarrow> string option" where
  "prompt line = map_option trim_space line"

record LoginInput =
  liLine :: "string option"
  liPassword :: "string option"
  liPost :: "string \<Rightarrow> string \<Rightarrow> (int \<times> string) option"

definition login_body :: "string \<Rightarrow> string \<Rightarrow> string" where
  "login_body username password = print_json (JObj
     [(''name'', JStr ''ntunl-client''), (''password'', JStr password), (''username'', JStr username)])"

datatype login_error = PromptFailed | ConnectFailed | Refused int | BadAnswer | StoreFailed cred_error

definition set_addresses :: "HostCred \<Rightarrow> string list \<Rightarrow> Credentials \<Rightarrow> Credentials" where
  "set_addresses hc = fold (\<lambda>addr. Set addr hc)"

text \<open>What \<open>Login\<close> reads of the portal's answer: the first value of its body.\<close>

definition login_result :: "string \<Rightarrow> HostCred option" where
  "login_result answer = do { j \<leftarrow> decode_first answer; decode_struct set_host_cred zero_cred j }"

text \<open>The result is the list of keys that is printed.\<close>

definition Login :: "LoginInput \<Rightarrow> string \<Rightarrow> string list \<Rightarrow> Disk \<Rightarrow> (login_error + string list) \<times> Disk" where
  "Login i portal addrs d =
     (let portalURL = trim_right portal ''/'' in
      case prompt (liLine i) of
        None \<Rightarrow> (Inl PromptFailed, d)
      | Some username \<Rightarrow>
          (case prompt (liPassword i) of
             None \<Rightarrow> (Inl PromptFailed, d)
           | Some password \<Rightarrow>
               (case liPost i (portalURL @ ''/api/auth/login'') (login_body username password) of
                  None \<Rightarrow> (Inl ConnectFailed, d)
                | Some (status, answer) \<Rightarrow>
                    (if status \<noteq> StatusOK then (Inl (Refused status), d)
                     else (case login_result answer of
                       None \<Rightarrow> (Inl BadAnswer, d)
                     | Some out \<Rightarrow>
                         (case LoadCredentials d of
                            Inl e \<Rightarrow> (Inl (StoreFailed e), d)
                          | Inr creds \<Rightarrow>
                              (let tunnelAddrs = (if addrs = [] then [portalURL] else addrs) in
                               case Save (set_addresses out tunnelAddrs creds) d of
                                 (Inl e, d') \<Rightarrow> (Inl (StoreFailed e), d')
                               | (Inr _, d') \<Rightarrow> (Inr (map HostKey tunnelAddrs), d'))))))))"

definition Logout :: "string list \<Rightarrow> Disk \<Rightarrow> (cred_error + string list) \<times> Disk" where
  "Logout addrs d =
     (case LoadCredentials d of
        Inl e \<Rightarrow> (Inl e, d)
      | Inr creds \<Rightarrow>
          (case Save (fold Delete addrs creds) d of
             (Inl e, d') \<Rightarrow> (Inl e, d')
           | (Inr _, d') \<Rightarrow> (Inr (map HostKey addrs), d')))"

subsection \<open>The inspector's view\<close>









subsection \<open>What signing in and out leave behind\<close>

lemma Get_set_addresses:
  "Get (set_addresses hc addrs c) a = (if HostKey a \<in> HostKey ` set addrs then Some hc else Get c a)"
  by (auto simp: set_addresses_def creds.get_puts image_iff)

lemma Get_delete_addresses: "Get (fold Delete addrs c) a = (if HostKey a \<in> HostKey ` set addrs then None else Get c a)"
  by (auto simp: creds.get_dels image_iff)

lemma cred_ok_Set:
  "cred_ok c \<Longrightarrow> valid_utf8 (HostKey a) \<Longrightarrow> valid_utf8 (hcToken hc) \<Longrightarrow> valid_utf8 (hcUsername hc) \<Longrightarrow> cred_ok (Set a hc c)"
  by (auto simp: cred_ok_def Set_def fmpred_iff split: if_splits)

lemma cred_ok_Delete: "cred_ok c \<Longrightarrow> cred_ok (Delete a c)"
  by (auto simp: cred_ok_def Delete_def fmpred_iff split: if_splits)

lemma cred_ok_set_addresses:
  assumes "cred_ok c" "\<forall>a\<in>set addrs. valid_utf8 (HostKey a)" "valid_utf8 (hcToken hc)" "valid_utf8 (hcUsername hc)"
  shows "cred_ok (set_addresses hc addrs c)"
  using assms unfolding set_addresses_def
  by (induction addrs arbitrary: c) (simp_all add: cred_ok_Set)

lemma cred_ok_deleted: "cred_ok c \<Longrightarrow> cred_ok (fold Delete addrs c)"
  by (induction addrs arbitrary: c) (simp_all add: cred_ok_Delete)

lemma Login_stored:
  assumes "Login i portal addrs d = (Inr keys, d')"
  obtains u pw answer out creds where
    "prompt (liLine i) = Some u" "prompt (liPassword i) = Some pw"
    "liPost i (trim_right portal ''/'' @ ''/api/auth/login'') (login_body u pw) = Some (StatusOK, answer)"
    "login_result answer = Some out" "LoadCredentials d = Inr creds"
    "Save (set_addresses out (if addrs = [] then [trim_right portal ''/''] else addrs) creds) d = (Inr (), d')"
    "keys = map HostKey (if addrs = [] then [trim_right portal ''/''] else addrs)"
  using assms unfolding Login_def Let_def
  by (auto simp: split: option.splits sum.splits prod.splits if_splits dest: that)

subsection \<open>What the inspector shows\<close>









end
