(* ===== verification/SignIn.thy ===== *)
theory SignIn
  imports Portal Client
begin

text \<open>
  Signing in, through both programs: the client's \<open>Login\<close> against the portal's login API, the
  stored token, the client that \<open>New\<close> builds from it, and the connection it opens to the host.
\<close>

subsection \<open>The exchange with the portal\<close>

text \<open>What the portal does on the client's post; \<open>r\<close> has what the client does not choose.\<close>

definition post_login :: "Portal \<Rightarrow> View \<Rightarrow> Env \<Rightarrow> Request \<Rightarrow> db \<Rightarrow> string \<Rightarrow> db \<times> Writer" where
  "post_login p v e r d body =
     serve p v e (r\<lparr>rMethod := ''POST'', rURI := ''/api/auth/login'', rBody := Some body\<rparr>) (d, new_writer)"

text \<open>What the host gets of a dial.\<close>

definition upgrade_request :: "Request \<Rightarrow> tunnelClient \<Rightarrow> Request" where
  "upgrade_request r tc = r\<lparr>rMethod := ''GET'', rURI := ''/'', rHeader := doHeader (dial_options tc)\<rparr>"

lemma login_route:
  "find_route (routes p v) ''POST'' [''api'', ''auth'', ''login''] = Some ([], handleAPILogin p v)"
  by (simp add: routes_def method_matches_def)

lemma post_login_handled:
  "\<exists>r'. post_login p v e r d body = handleAPILogin p v e None r' (d, new_writer) \<and> rBody r' = Some body"
proof -
  let ?r = "r\<lparr>rMethod := ''POST'', rURI := ''/api/auth/login'', rBody := Some body\<rparr>"
  have s: "tl (split_byte (CHR ''/'') (fst (cut (CHR ''?'') ''/api/auth/login''))) = [''api'', ''auth'', ''login'']"
    by code_simp
  have "path_segments ?r = [''api'', ''auth'', ''login'']" unfolding path_segments_def by (simp add: s)
  then show ?thesis
    by (intro exI [of _ "?r\<lparr>rPathID := []\<rparr>"]) (simp add: post_login_def serve_def login_route)
qed

lemma login_fields [simp]:
  "same_field ''name'' ''name''" "\<not> same_field ''name'' ''username''" "\<not> same_field ''name'' ''password''"
  "same_field ''password'' ''password''" "\<not> same_field ''password'' ''username''" "same_field ''username'' ''username''"
  by code_simp+

lemma login_decoded:
  assumes "valid_utf8 n" "valid_utf8 pw"
  shows "decode_login (Some (login_body n pw)) = Some \<lparr>lbUsername = n, lbPassword = pw, lbName = ''ntunl-client''\<rparr>"
proof -
  let ?j = "JObj [(''name'', JStr ''ntunl-client''), (''password'', JStr pw), (''username'', JStr n)]"
  have "decode_first (login_body n pw) = Some ?j"
    using decode_first_print [of ?j "[]"] assms unfolding login_body_def by (simp del: print_json.simps add: ascii_valid_utf8)
  then show ?thesis
    by (simp add: decode_login_def decode_struct_def set_login_def set_string_def)
qed

lemma answer_fields [simp]: "\<not> same_field ''role'' ''token''" "\<not> same_field ''role'' ''username''"
  by code_simp+

lemma login_result_answer:
  assumes "valid_utf8 (userName u)" "valid_utf8 (userRole u)" "valid_utf8 plaintext"
  shows "login_result (login_answer plaintext u) = Some \<lparr>hcToken = plaintext, hcUsername = userName u\<rparr>"
  by (simp add: login_result_def login_answer_read [OF assms])
    (simp add: decode_struct_def set_host_cred_def set_string_def zero_cred_def)

subsection \<open>A token on its way to the host\<close>

lemma nibble_char:
  assumes "n < 16"
  shows "nibble_digit n \<notin> set ascii_space" "(of_char (nibble_digit n) :: nat) < 128"
proof -
  have "n \<in> set [0..<16]" using assms by simp
  moreover have "list_all (\<lambda>n. nibble_digit n \<notin> set ascii_space \<and> (of_char (nibble_digit n) :: nat) < 128) [0..<16]"
    by code_simp
  ultimately show "nibble_digit n \<notin> set ascii_space" "(of_char (nibble_digit n) :: nat) < 128"
    by (simp_all only: list_all_iff) blast+
qed

lemma hex_encode_Cons: "hex_encode (c # s) = nibble_digit (of_char c div 16) # nibble_digit (of_char c mod 16) # hex_encode s"
  by (simp add: hex_encode_def)

lemma nibbles: "(of_char c :: nat) div 16 < 16" "(of_char c :: nat) mod 16 < 16"
  using nat_of_char_less_256 [of c] by (simp_all add: less_mult_imp_div_less)

lemma hex_encode_clean: "ascii (hex_encode s)" "set (hex_encode s) \<inter> set ascii_space = {}"
  by (induction s) (simp_all add: hex_encode_Cons nibble_char nibbles, simp_all add: hex_encode_def)

lemma trim_space_clean: "set s \<inter> set ascii_space = {} \<Longrightarrow> trim_space s = s"
proof -
  assume "set s \<inter> set ascii_space = {}"
  then have "s = [] \<or> hd s \<notin> set ascii_space" "s = [] \<or> last s \<notin> set ascii_space"
    using hd_in_set last_in_set by (fast | fast)+
  then show ?thesis by (simp add: trim_space_def trim_left_id trim_right_id)
qed

lemma bearer_of_dial: "set (tcToken tc) \<inter> set ascii_space = {} \<Longrightarrow> BearerToken (upgrade_request r tc) = tcToken tc"
proof -
  assume clean: "set (tcToken tc) \<inter> set ascii_space = {}"
  have k: "canonical_key ''Authorization'' = ''Authorization''" "canonical_key ''Ntunl-Subdomain'' = ''Ntunl-Subdomain''"
    by code_simp+
  have "header_get (doHeader (dial_options tc)) ''Authorization'' = ''Bearer '' @ tcToken tc"
    by (simp add: dial_options_def header_get_def header_set_def Let_def k)
  then show ?thesis
    by (simp add: BearerToken_def upgrade_request_def has_prefix_def trim_space_clean [OF clean])
qed

subsection \<open>The client's side\<close>

lemma new_tunnels_ready:
  assumes "\<forall>t\<in>set ts. (\<exists>hc. Get creds (tsNtunlAddress t) = Some hc \<and> hcToken hc = tok) \<and> newTunnelState compile t \<noteq> None"
    and "tok \<noteq> []"
  shows "new_tunnels compile creds ts tcs = Inr (tcs @ map (\<lambda>t. \<lparr>tcState = the (newTunnelState compile t), tcToken = tok\<rparr>) ts)"
  using assms by (induction ts arbitrary: tcs) (auto simp: newTunnelClient_def)

definition healthy :: "Disk \<Rightarrow> bool" where
  "healthy d \<longleftrightarrow> dkConfigDir d \<noteq> None \<and> \<not> dkReadFails d \<and> \<not> dkMkdirFails d \<and> dkWrite d = WriteOk"

lemma Save_healthy: "healthy d \<Longrightarrow> \<exists>d'. Save c d = (Inr (), d')"
  by (auto simp: healthy_def Save_def WriteFile_def credentialsPath_def Let_def)

lemma Login_gives:
  assumes "prompt (liLine i) = Some n" "prompt (liPassword i) = Some pw"
    and "liPost i (trim_right portal ''/'' @ ''/api/auth/login'') (login_body n pw) = Some (StatusOK, answer)"
    and "login_result answer = Some out" "LoadCredentials d = Inr creds" "healthy d" "addrs \<noteq> []"
  shows "\<exists>d'. Login i portal addrs d = (Inr (map HostKey addrs), d') \<and> Save (set_addresses out addrs creds) d = (Inr (), d')"
  using Save_healthy [OF assms(6), of "set_addresses out addrs creds"] assms(1-5,7) by (auto simp: Login_def Let_def)

lemma NewClient_after_login:
  assumes "LoadCredentials d' = Inr (set_addresses out addrs creds)" "hcToken out \<noteq> []"
    and "\<forall>t\<in>set (cfTunnels cfg). HostKey (tsNtunlAddress t) \<in> HostKey ` set addrs \<and> newTunnelState compile t \<noteq> None"
  shows "NewClient compile d' cfg = Inr \<lparr>clCfg = cfg, clLogs = [],
    clTunnels = map (\<lambda>t. \<lparr>tcState = the (newTunnelState compile t), tcToken = hcToken out\<rparr>) (cfTunnels cfg)\<rparr>"
  using new_tunnels_ready [of "cfTunnels cfg" "set_addresses out addrs creds" "hcToken out" compile "[]"] assms
  by (simp add: NewClient_def Get_set_addresses)

lemma newTunnelState_settings: "newTunnelState compile t = Some st \<Longrightarrow> stSettings st = t"
  by (auto simp: newTunnelState_def Let_def split: if_splits option.splits)

lemma load_after_login:
  assumes "Save (set_addresses out addrs creds) d = (Inr (), d')" "healthy d" "cred_ok creds"
    and "\<forall>a\<in>set addrs. valid_utf8 (HostKey a)" "valid_utf8 (hcToken out)" "valid_utf8 (hcUsername out)"
  shows "LoadCredentials d' = Inr (set_addresses out addrs creds)"
  using load_saved [OF cred_ok_set_addresses assms(1)] assms(2-6) by (simp add: healthy_def)

lemma settings_of_new:
  "\<forall>t\<in>set ts. newTunnelState compile t \<noteq> None \<Longrightarrow>
    map (\<lambda>tc. stSettings (tcState tc)) (map (\<lambda>t. \<lparr>tcState = the (newTunnelState compile t), tcToken = tok\<rparr>) ts) = ts"
  by (induction ts) (auto simp: newTunnelState_settings)

subsection \<open>The property\<close>

text \<open>
  C2. Signing in works through both programs: when the user types the name and password of an
  enabled user and the post reaches the portal, \<open>Login\<close> stores the new token for every tunnel
  address, \<open>New\<close> builds a client for every tunnel to one of those hosts, and each
  connection the client opens authenticates at the host as that user.
\<close>

theorem signed_in_client:
  assumes "db_wf d" "faults d = []" "u \<in> set (users d)" "\<not> userDisabled u" "\<not> seq_full (token_seq d)"
    and "valid_utf8 (userName u)" "valid_utf8 (userRole u)" "valid_utf8 pw" "CheckPassword e (userHash u) pw"
    and "entropy e = Some buf" "buf \<noteq> []" "HashToken e (hex_encode buf) \<notin> tokHash ` set (tokens d)"
    and "post_login p v e r d (login_body (userName u) pw) = (d', w)"
    and "prompt (liLine i) = Some (userName u)" "prompt (liPassword i) = Some pw"
    and "liPost i (trim_right portal ''/'' @ ''/api/auth/login'') (login_body (userName u) pw) =
      map_option (\<lambda>status. (status, wBody w)) (sent_status w)"
    and "healthy disk" "LoadCredentials disk = Inr creds" "cred_ok creds" "addrs \<noteq> []"
    and "\<forall>a\<in>set addrs. valid_utf8 (HostKey a)"
    and "\<forall>t\<in>set (cfTunnels cfg). HostKey (tsNtunlAddress t) \<in> HostKey ` set addrs \<and> newTunnelState compile t \<noteq> None"
  shows "\<exists>disk' c. Login i portal addrs disk = (Inr (map HostKey addrs), disk') \<and> NewClient compile disk' cfg = Inr c \<and>
    map (\<lambda>tc. stSettings (tcState tc)) (clTunnels c) = cfTunnels cfg \<and>
    (\<forall>tc\<in>set (clTunnels c). fst (ResolveToken e d' (BearerToken (upgrade_request r' tc))) = Inr u)"
proof -
  let ?out = "\<lparr>hcToken = hex_encode buf, hcUsername = userName u\<rparr>"
  obtain q where q: "handleAPILogin p v e None q (d, new_writer) = (d', w)" "rBody q = Some (login_body (userName u) pw)"
    using post_login_handled [of p v e r d "login_body (userName u) pw"] assms(13) by metis
  have w: "wBody w = login_answer (hex_encode buf) u" "sent_status w = Some StatusOK"
    "fst (ResolveToken e d' (hex_encode buf)) = Inr u"
    using api_login_answer [OF assms(1-5) _ _ _ assms(10,12) q(1)] login_decoded [OF assms(6,8)] assms(9) q(2) by simp_all
  have v: "valid_utf8 (hex_encode buf)" by (simp add: ascii_valid_utf8 hex_encode_clean(1))
  have a: "login_result (login_answer (hex_encode buf) u) = Some ?out" by (rule login_result_answer [OF assms(6,7) v])
  have "liPost i (trim_right portal ''/'' @ ''/api/auth/login'') (login_body (userName u) pw) =
      Some (StatusOK, login_answer (hex_encode buf) u)"
    by (simp only: assms(16) w(1,2) option.map)
  then obtain disk' where l: "Login i portal addrs disk = (Inr (map HostKey addrs), disk')"
      and s: "Save (set_addresses ?out addrs creds) disk = (Inr (), disk')"
    using Login_gives [OF assms(14,15) _ a assms(18,17,20)] by blast
  have ld: "LoadCredentials disk' = Inr (set_addresses ?out addrs creds)"
    by (rule load_after_login [OF s assms(17,19,21)]) (simp_all add: v assms(6))
  have "hcToken ?out \<noteq> []" using assms(11) by (cases buf) (simp_all add: hex_encode_Cons)
  note c = NewClient_after_login [OF ld this assms(22)]
  let ?tcs = "map (\<lambda>t. \<lparr>tcState = the (newTunnelState compile t), tcToken = hcToken ?out\<rparr>) (cfTunnels cfg)"
  have t: "map (\<lambda>tc. stSettings (tcState tc)) ?tcs = cfTunnels cfg"
    by (rule settings_of_new) (use assms(22) in blast)
  have b: "\<forall>tc\<in>set ?tcs. fst (ResolveToken e d' (BearerToken (upgrade_request r' tc))) = Inr u"
  proof
    fix tc assume "tc \<in> set ?tcs"
    then have "tcToken tc = hex_encode buf" by auto
    then show "fst (ResolveToken e d' (BearerToken (upgrade_request r' tc))) = Inr u"
      using w(3) by (simp only: bearer_of_dial hex_encode_clean(2))
  qed
  show ?thesis
    by (intro exI conjI, rule l, rule c) (use t b in simp_all)
qed

subsection \<open>A concrete sign-in\<close>

definition sample_login :: LoginInput where
  "sample_login = \<lparr>liLine = Some (''alice'' @ [CHR 0x0A]), liPassword = Some ''wonderland'',
     liPost = (\<lambda>url body. let w = snd (post_login sample_portal sample_view sample_env disable_request sample_db body) in
       map_option (\<lambda>status. (status, wBody w)) (sent_status w))\<rparr>"

definition sample_config :: Config where
  "sample_config = \<lparr>cfTunnels = [sample_setting], cfInspector = \<lparr>icEnabled = False, icPort = 0\<rparr>, cfPortalAddress = []\<rparr>"

lemma signed_in_client_witness:
  "\<exists>disk' c. Login sample_login ''https://portal.example/'' [''HOST.example''] sample_disk = (Inr [''host.example''], disk') \<and>
    NewClient (\<lambda>p. Some (\<lambda>text u. text @ u)) disk' sample_config = Inr c \<and>
    map (\<lambda>tc. stSettings (tcState tc)) (clTunnels c) = [sample_setting] \<and>
    (\<forall>tc\<in>set (clTunnels c). fst (ResolveToken sample_env
       (fst (post_login sample_portal sample_view sample_env disable_request sample_db (login_body ''alice'' ''wonderland'')))
       (BearerToken (upgrade_request disable_request tc))) = Inr alice)"
proof -
  have v: "valid_utf8 (userName alice)" "valid_utf8 (userRole alice)" "valid_utf8 ''wonderland''"
    by code_simp+
  have h: "HashToken sample_env (hex_encode ''ab'') \<notin> tokHash ` set (tokens sample_db)"
    by (simp, code_simp)
  have e: "entropy sample_env = Some ''ab''" "''ab'' \<noteq> []" by (simp_all add: sample_env_def)
  have pw: "CheckPassword sample_env (userHash alice) ''wonderland''"
    by (simp add: CheckPassword_def sample_env_def alice_def)
  have n: "userName alice = ''alice''" by (simp add: alice_def)
  have p: "prompt (liLine sample_login) = Some ''alice''" "prompt (liPassword sample_login) = Some ''wonderland''"
    unfolding sample_login_def by code_simp+
  have k: "map HostKey [''HOST.example''] = [''host.example'']" "HostKey (tsNtunlAddress sample_setting) = ''host.example''"
      "valid_utf8 ''host.example''"
    by code_simp+
  have d: "healthy sample_disk" "LoadCredentials sample_disk = Inr fmempty" "cred_ok fmempty"
    using sample_path by (simp_all add: LoadCredentials_def cred_ok_def) (simp_all add: healthy_def sample_disk_def)
  have s: "newTunnelState (\<lambda>p. Some (\<lambda>text u. text @ u)) sample_setting \<noteq> None"
    by (simp add: newTunnelState_def Let_def)
  have post: "liPost sample_login (trim_right ''https://portal.example/'' ''/'' @ ''/api/auth/login'') (login_body (userName alice) ''wonderland'') =
    map_option (\<lambda>status. (status, wBody (snd (post_login sample_portal sample_view sample_env disable_request sample_db
      (login_body (userName alice) ''wonderland''))))) (sent_status (snd (post_login sample_portal sample_view sample_env
        disable_request sample_db (login_body (userName alice) ''wonderland''))))"
    by (simp add: sample_login_def Let_def)
  have db: "faults sample_db = []" "alice \<in> set (users sample_db)" "\<not> userDisabled alice" "\<not> seq_full (token_seq sample_db)"
    by (simp_all add: seq_full_def)
  have p1: "prompt (liLine sample_login) = Some (userName alice)" by (simp only: p(1) n)
  have a: "[''HOST.example''] \<noteq> []" "\<forall>a\<in>set [''HOST.example'']. valid_utf8 (HostKey a)"
    using k by (simp_all only: list.map list.set ball_simps list.inject) simp_all
  have t: "\<forall>t\<in>set (cfTunnels sample_config). HostKey (tsNtunlAddress t) \<in> HostKey ` set [''HOST.example''] \<and>
      newTunnelState (\<lambda>p. Some (\<lambda>text u. text @ u)) t \<noteq> None"
    using k(1,2) s by (simp only: sample_config_def Config.simps list.set ball_simps list.map list.inject image_insert image_empty) simp
  have c: "cfTunnels sample_config = [sample_setting]" by (simp add: sample_config_def)
  show ?thesis
    using signed_in_client [OF sample_db_wf db v pw e h prod.collapse [symmetric] p1 p(2) post d a t, of disable_request]
    by (simp only: n k(1) c)
qed

end
