(* ===== verification/Config.thy ===== *)
theory Config
  imports Protocol
begin

text \<open>
  Reading a configuration (\<open>internal/config/config.go\<close>). \<open>json.Unmarshal\<close> goes on after a member of
  the wrong type: it leaves that value, decodes the others, and reports the first such error at the
  end. The decoders here give the value together with whether every member fitted. A key given
  again decodes over what the earlier one left, elements of a list included.
\<close>

subsection \<open>Decoders that go on after an error\<close>

definition dec_string :: "string \<Rightarrow> json \<Rightarrow> string \<times> bool" where
  "dec_string old j = (case j of JStr s \<Rightarrow> (s, True) | JNull \<Rightarrow> (old, True) | _ \<Rightarrow> (old, False))"

definition dec_bool :: "bool \<Rightarrow> json \<Rightarrow> bool \<times> bool" where
  "dec_bool old j = (case j of JBool b \<Rightarrow> (b, True) | JNull \<Rightarrow> (old, True) | _ \<Rightarrow> (old, False))"

definition dec_int :: "int \<Rightarrow> json \<Rightarrow> int \<times> bool" where
  "dec_int old j = (case j of
     JNum l \<Rightarrow> (case parse_int l of Some i \<Rightarrow> (i, True) | None \<Rightarrow> (old, False))
   | JNull \<Rightarrow> (old, True)
   | _ \<Rightarrow> (old, False))"

text \<open>The elements decode over those already there, in a longer list over the zero value.\<close>

fun dec_elems :: "('a \<Rightarrow> json \<Rightarrow> 'a \<times> bool) \<Rightarrow> 'a \<Rightarrow> 'a list \<Rightarrow> json list \<Rightarrow> 'a list \<times> bool" where
  "dec_elems dec zero olds [] = ([], True)"
| "dec_elems dec zero olds (j # js) =
     (let (x, ok) = dec (case olds of [] \<Rightarrow> zero | y # ys \<Rightarrow> y) j;
          (xs, oks) = dec_elems dec zero (tl olds) js
      in (x # xs, ok \<and> oks))"

definition dec_list :: "('a \<Rightarrow> json \<Rightarrow> 'a \<times> bool) \<Rightarrow> 'a \<Rightarrow> 'a list \<Rightarrow> json \<Rightarrow> 'a list \<times> bool" where
  "dec_list dec zero old j = (case j of
     JArr js \<Rightarrow> dec_elems dec zero old js
   | JNull \<Rightarrow> ([], True)
   | _ \<Rightarrow> (old, False))"

text \<open>An entry whose value is no string is stored as the empty string.\<close>

fun dec_entries :: "headers \<Rightarrow> bool \<Rightarrow> (string \<times> json) list \<Rightarrow> headers \<times> bool" where
  "dec_entries m ok [] = (m, ok)"
| "dec_entries m ok ((k, v) # kvs) =
     (let (s, ok') = dec_string [] v in dec_entries (fmupd k s m) (ok \<and> ok') kvs)"

definition dec_headers :: "headers \<Rightarrow> json \<Rightarrow> headers \<times> bool" where
  "dec_headers old j = (case j of
     JObj kvs \<Rightarrow> dec_entries old True kvs
   | JNull \<Rightarrow> (fmempty, True)
   | _ \<Rightarrow> (old, False))"

definition dec_pointer :: "('a \<Rightarrow> json \<Rightarrow> 'a \<times> bool) \<Rightarrow> 'a \<Rightarrow> 'a option \<Rightarrow> json \<Rightarrow> 'a option \<times> bool" where
  "dec_pointer dec zero old j =
     (if j = JNull then (None, True)
      else (let (x, ok) = dec (case old of Some y \<Rightarrow> y | None \<Rightarrow> zero) j in (Some x, ok)))"

subsection \<open>Structs\<close>

text \<open>A struct by its fields: the name of each, and how a member of that name changes the struct.\<close>

type_synonym 'a fields = "(string \<times> ('a \<Rightarrow> json \<Rightarrow> 'a \<times> bool)) list"

definition field :: "('a \<Rightarrow> 'b) \<Rightarrow> (('b \<Rightarrow> 'b) \<Rightarrow> 'a \<Rightarrow> 'a) \<Rightarrow> ('b \<Rightarrow> json \<Rightarrow> 'b \<times> bool) \<Rightarrow> 'a \<Rightarrow> json \<Rightarrow> 'a \<times> bool" where
  "field get upd dec r j = (let (x, ok) = dec (get r) j in (upd (\<lambda>_. x) r, ok))"

definition find_field :: "'a fields \<Rightarrow> string \<Rightarrow> (string \<times> ('a \<Rightarrow> json \<Rightarrow> 'a \<times> bool)) option" where
  "find_field fs k = find (\<lambda>(n, f). same_field k n) fs"

fun dec_members :: "'a fields \<Rightarrow> 'a \<Rightarrow> bool \<Rightarrow> (string \<times> json) list \<Rightarrow> 'a \<times> bool" where
  "dec_members fs r ok [] = (r, ok)"
| "dec_members fs r ok ((k, v) # kvs) =
     (case find_field fs k of
        None \<Rightarrow> dec_members fs r ok kvs
      | Some (n, f) \<Rightarrow> (let (r', ok') = f r v in dec_members fs r' (ok \<and> ok') kvs))"

definition dec_struct :: "'a fields \<Rightarrow> 'a \<Rightarrow> json \<Rightarrow> 'a \<times> bool" where
  "dec_struct fs old j = (case j of
     JObj kvs \<Rightarrow> dec_members fs old True kvs
   | JNull \<Rightarrow> (old, True)
   | _ \<Rightarrow> (old, False))"

subsection \<open>\<open>Load\<close>\<close>

datatype load_error = ReadError string | ParseError string

text \<open>\<open>getenv\<close> gives the empty string for a variable that is not set.\<close>

definition config_path :: "(string \<Rightarrow> string) \<Rightarrow> string \<Rightarrow> string" where
  "config_path getenv path = (if getenv ''NTUNL_CONFIG'' \<noteq> [] then getenv ''NTUNL_CONFIG'' else path)"

definition Load :: "(string \<Rightarrow> string) \<Rightarrow> (string \<Rightarrow> string option) \<Rightarrow> string \<Rightarrow> 'a fields \<Rightarrow> 'a \<Rightarrow> 'a \<times> load_error option" where
  "Load getenv read path fs v =
     (let path = config_path getenv path in
      case read path of
        None \<Rightarrow> (v, Some (ReadError path))
      | Some data \<Rightarrow>
          (case parse_json data of
             None \<Rightarrow> (v, Some (ParseError path))
           | Some j \<Rightarrow>
               (let (v', ok) = dec_struct fs v j in (v', if ok then None else Some (ParseError path)))))"

subsection \<open>A field depends on its own members only\<close>

lemma find_field_same: "same_field k n \<Longrightarrow> find_field fs k = find_field fs n"
  by (simp add: find_field_def same_field_def)

lemma find_field_mem: "find_field fs k = Some (n, f) \<Longrightarrow> (n, f) \<in> set fs \<and> same_field k n"
  by (auto simp: find_field_def find_Some_iff in_set_conv_nth)

text \<open>What the table of a struct promises of one of its fields.\<close>

locale struct_field =
  fixes fs :: "'a fields" and name :: string and get :: "'a \<Rightarrow> 'b" and upd :: "('b \<Rightarrow> 'b) \<Rightarrow> 'a \<Rightarrow> 'a"
    and dec :: "'b \<Rightarrow> json \<Rightarrow> 'b \<times> bool"
  assumes own: "find_field fs name = Some (name, field get upd dec)"
    and get_upd: "get (upd (\<lambda>_. x) r) = x"
    and others: "list_all (\<lambda>(n, f). n = name \<or> (\<forall>r j. get (fst (f r j)) = get r)) fs"
begin

lemma get_field: "get (fst (field get upd dec r j)) = fst (dec (get r) j)"
  by (simp add: field_def get_upd split: prod.splits)

lemma get_members:
  "get (fst (dec_members fs r ok kvs)) = fold (\<lambda>(k, v) x. if same_field k name then fst (dec x v) else x) kvs (get r)"
proof (induction kvs arbitrary: r ok)
  case (Cons kv kvs)
  obtain k v where kv: "kv = (k, v)" by fastforce
  show ?case
  proof (cases "find_field fs k")
    case None
    then have "\<not> same_field k name" using find_field_same [of k name fs] own by auto
    then show ?thesis by (simp add: kv None Cons.IH)
  next
    case (Some nf)
    obtain n f where nf: "nf = (n, f)" by fastforce
    have "get (fst (f r v)) = (if same_field k name then fst (dec (get r) v) else get r)"
    proof (cases "same_field k name")
      case True
      then have "f = field get upd dec" using Some nf own find_field_same [of k name fs] by simp
      with True show ?thesis by (simp add: get_field)
    next
      case False
      then have "n \<noteq> name" using find_field_mem [of fs k n f] Some nf by auto
      then show ?thesis using False others find_field_mem [of fs k n f] Some nf by (auto simp: list_all_iff)
    qed
    then show ?thesis by (cases "f r v") (simp add: kv Some nf Cons.IH)
  qed
qed simp

text \<open>So a member of the right type is loaded, whatever the types of the others.\<close>

lemma get_Load:
  assumes "read (config_path getenv path) = Some data"
    and "parse_json data = Some (JObj kvs)"
  shows "get (fst (Load getenv read path fs v)) =
    fold (\<lambda>(k, v) x. if same_field k name then fst (dec x v) else x) kvs (get v)"
  using assms by (simp add: Load_def dec_struct_def Let_def case_prod_beta get_members)

end

text \<open>A file that is not there or is no JSON leaves the configuration as it was.\<close>

lemma Load_unread:
  "read (config_path getenv path) = None \<or> parse_json (the (read (config_path getenv path))) = None \<Longrightarrow>
   fst (Load getenv read path fs v) = v \<and> snd (Load getenv read path fs v) \<noteq> None"
  by (auto simp: Load_def Let_def split: option.splits)

end
