(* ===== verification/Flags.thy ===== *)
theory Flags
  imports Prelude
begin

text \<open>
  What both programs use of the package \<open>flag\<close>: string and boolean flags, \<open>-name value\<close>,
  \<open>-name=value\<close> with one or two dashes, and where the flags of a command line end. A flag set that
  exits on errors ends the program with 0 when help is asked for, else with 2.
\<close>

datatype flag_value = FString string | FBool bool

type_synonym flags = "(string, flag_value) gomap"

datatype flag_error = FlagHelp | FlagUsage

text \<open>\<open>strconv.ParseBool\<close>.\<close>

definition parse_bool :: "string \<Rightarrow> bool option" where
  "parse_bool s =
     (if s \<in> set [''1'', ''t'', ''T'', ''TRUE'', ''true'', ''True''] then Some True
      else if s \<in> set [''0'', ''f'', ''F'', ''FALSE'', ''false'', ''False''] then Some False
      else None)"

definition split_flag :: "string \<Rightarrow> string \<times> string option" where
  "split_flag name = (takeWhile (\<lambda>c. c \<noteq> CHR ''='') name,
     (case dropWhile (\<lambda>c. c \<noteq> CHR ''='') name of [] \<Rightarrow> None | _ # v \<Rightarrow> Some v))"

definition flag_name :: "string \<Rightarrow> string" where
  "flag_name s = (if s ! 1 = CHR ''-'' then drop 2 s else drop 1 s)"

fun parse_flags :: "flags \<Rightarrow> string list \<Rightarrow> flag_error + flags" where
  "parse_flags m [] = Inr m"
| "parse_flags m (s # args) =
     (if length s < 2 \<or> hd s \<noteq> CHR ''-'' \<or> s = ''--'' then Inr m
      else if flag_name s = [] \<or> hd (flag_name s) \<in> {CHR ''-'', CHR ''=''} then Inl FlagUsage
      else
        (let (n, v) = split_flag (flag_name s) in
         case fmlookup m n of
           None \<Rightarrow> Inl (if n = ''help'' \<or> n = ''h'' then FlagHelp else FlagUsage)
         | Some (FBool _) \<Rightarrow>
             (case v of
                None \<Rightarrow> parse_flags (fmupd n (FBool True) m) args
              | Some x \<Rightarrow>
                  (case parse_bool x of
                     None \<Rightarrow> Inl FlagUsage
                   | Some b \<Rightarrow> parse_flags (fmupd n (FBool b) m) args))
         | Some (FString _) \<Rightarrow>
             (case v of
                Some x \<Rightarrow> parse_flags (fmupd n (FString x) m) args
              | None \<Rightarrow>
                  (case args of
                     [] \<Rightarrow> Inl FlagUsage
                   | x # rest \<Rightarrow> parse_flags (fmupd n (FString x) m) rest))))"

definition flag_exit :: "flag_error \<Rightarrow> nat" where
  "flag_exit e = (case e of FlagHelp \<Rightarrow> 0 | FlagUsage \<Rightarrow> 2)"

definition string_flag :: "flags \<Rightarrow> string \<Rightarrow> string" where
  "string_flag m n = (case fmlookup m n of Some (FString s) \<Rightarrow> s | _ \<Rightarrow> [])"

definition bool_flag :: "flags \<Rightarrow> string \<Rightarrow> bool" where
  "bool_flag m n = (case fmlookup m n of Some (FBool b) \<Rightarrow> b | _ \<Rightarrow> False)"

subsection \<open>Reading flags\<close>

text \<open>A name as the programs declare them.\<close>

definition plain_flag :: "string \<Rightarrow> bool" where
  "plain_flag n \<longleftrightarrow> n \<noteq> [] \<and> list_all (\<lambda>c. c \<notin> {CHR ''-'', CHR ''=''}) n"

lemma plain_flag_split: "plain_flag n \<Longrightarrow> split_flag n = (n, None)"
proof -
  assume "plain_flag n"
  then have "dropWhile (\<lambda>c. c \<noteq> CHR ''='') n = []" "takeWhile (\<lambda>c. c \<noteq> CHR ''='') n = n"
    by (auto simp: plain_flag_def list_all_iff)
  then show ?thesis by (simp only: split_flag_def list.case)
qed

lemma plain_flag_name:
  assumes "plain_flag n"
  shows "flag_name (CHR ''-'' # n) = n" "flag_name (CHR ''-'' # CHR ''-'' # n) = n"
    "hd n \<notin> {CHR ''-'', CHR ''=''}" "n \<noteq> []"
  using assms by (cases n; auto simp: plain_flag_def flag_name_def)+

lemma parse_string_flag:
  assumes "plain_flag n" "fmlookup m n = Some (FString old)"
  shows "parse_flags m ((CHR ''-'' # n) # v # args) = parse_flags (fmupd n (FString v) m) args"
  using plain_flag_name [OF assms(1)] assms by (cases n) (simp_all add: plain_flag_split)

lemma parse_bool_flag:
  assumes "plain_flag n" "fmlookup m n = Some (FBool old)"
  shows "parse_flags m ((CHR ''-'' # n) # args) = parse_flags (fmupd n (FBool True) m) args"
  using plain_flag_name [OF assms(1)] assms by (cases n) (simp_all add: plain_flag_split)

end
