(* ===== verification/HostMain.thy ===== *)
theory HostMain
  imports Portal HttpServer Config Flags
begin

text \<open>
  The host's command line (\<open>cmd/host/main.go\<close>), its configuration (\<open>internal/host/config.go\<close>) and
  its first administrator (\<open>internal/host/bootstrap.go\<close>). Databases are kept by their path.
  Messages are left out, exit codes are not; what the servers do once they run is in the
  theories of those components.
\<close>

subsection \<open>The configuration\<close>

record PortalSettings =
  psPort :: int
  psSecure :: bool

record DatabaseSettings =
  dsPath :: string

record HostConfig =
  hfTunnelHost :: TunnelHostSettings
  hfHttpHost :: HttpHostSettings
  hfPortal :: PortalSettings
  hfDatabase :: DatabaseSettings

definition ssl_fields :: "SslSettings fields" where
  "ssl_fields =
    [(''enabled'', field sslEnabledFlag sslEnabledFlag_update dec_bool),
     (''acceptInvalidCertificates'', field sslAcceptInvalid sslAcceptInvalid_update dec_bool)]"

definition domain_fields :: "ClientDomainSettings fields" where
  "domain_fields =
    [(''domain'', field cdDomain cdDomain_update dec_string),
     (''subDomains'', field cdSubDomains cdSubDomains_update (dec_list dec_string []))]"

definition tunnel_host_fields :: "TunnelHostSettings fields" where
  "tunnel_host_fields =
    [(''hostName'', field thHostName thHostName_update dec_string),
     (''port'', field thPort thPort_update dec_int),
     (''clientDomain'', field thClientDomain thClientDomain_update (dec_struct domain_fields)),
     (''ssl'', field thSsl thSsl_update
        (dec_pointer (dec_struct ssl_fields) \<lparr>sslEnabledFlag = False, sslAcceptInvalid = False\<rparr>))]"

definition header_fields :: "HttpHeaderSettings fields" where
  "header_fields =
    [(''blackList'', field hhBlackList hhBlackList_update (dec_list dec_string [])),
     (''ipHeaderName'', field hhIpHeaderName hhIpHeaderName_update dec_string)]"

definition http_fields :: "HttpHostSettings fields" where
  "http_fields =
    [(''hostName'', field hsHostName hsHostName_update dec_string),
     (''port'', field hsPort hsPort_update dec_int),
     (''headers'', field hsHeaders hsHeaders_update (dec_struct header_fields)),
     (''defaultResponseCode'', field hsDefaultResponseCode hsDefaultResponseCode_update dec_int)]"

definition portal_fields :: "PortalSettings fields" where
  "portal_fields =
    [(''port'', field psPort psPort_update dec_int),
     (''secure'', field psSecure psSecure_update dec_bool)]"

definition database_fields :: "DatabaseSettings fields" where
  "database_fields = [(''path'', field dsPath dsPath_update dec_string)]"

definition host_fields :: "HostConfig fields" where
  "host_fields =
    [(''tunnelHost'', field hfTunnelHost hfTunnelHost_update (dec_struct tunnel_host_fields)),
     (''httpHost'', field hfHttpHost hfHttpHost_update (dec_struct http_fields)),
     (''portal'', field hfPortal hfPortal_update (dec_struct portal_fields)),
     (''database'', field hfDatabase hfDatabase_update (dec_struct database_fields))]"

definition zero_host_config :: HostConfig where
  "zero_host_config =
     \<lparr>hfTunnelHost = \<lparr>thHostName = [], thPort = 0, thClientDomain = \<lparr>cdDomain = [], cdSubDomains = []\<rparr>, thSsl = None\<rparr>,
      hfHttpHost = \<lparr>hsHostName = [], hsPort = 0, hsHeaders = \<lparr>hhBlackList = [], hhIpHeaderName = []\<rparr>,
        hsDefaultResponseCode = 0\<rparr>,
      hfPortal = \<lparr>psPort = 0, psSecure = False\<rparr>, hfDatabase = \<lparr>dsPath = []\<rparr>\<rparr>"

definition applyDefaults :: "HostConfig \<Rightarrow> HostConfig" where
  "applyDefaults cfg =
     (let cfg = (if dsPath (hfDatabase cfg) = [] then cfg\<lparr>hfDatabase := \<lparr>dsPath = ''ntunl.db''\<rparr>\<rparr> else cfg) in
      if psPort (hfPortal cfg) = 0 then cfg\<lparr>hfPortal := (hfPortal cfg)\<lparr>psPort := 8002\<rparr>\<rparr> else cfg)"

subsection \<open>The first administrator (\<open>bootstrap.go\<close>)\<close>

definition DefaultAdminUser :: string where "DefaultAdminUser = ''admin''"

definition DefaultAdminPassword :: string where "DefaultAdminPassword = ''admin''"

datatype boot_error = BootStore store_error | HashFailed

definition CreateAdmin :: "Env \<Rightarrow> db \<Rightarrow> string \<Rightarrow> string \<Rightarrow> boot_error option \<times> db" where
  "CreateAdmin e d username password =
     (case HashPassword e password of
        None \<Rightarrow> (Some HashFailed, d)
      | Some hash \<Rightarrow>
          (case CreateUser (now e) d username hash RoleAdmin of
             (Inl err, d') \<Rightarrow> (Some (BootStore err), d')
           | (Inr _, d') \<Rightarrow> (None, d')))"

definition admin_user :: "(string \<Rightarrow> string) \<Rightarrow> string" where
  "admin_user getenv = (if getenv ''NTUNL_ADMIN_USER'' = [] then DefaultAdminUser else getenv ''NTUNL_ADMIN_USER'')"

definition admin_password :: "(string \<Rightarrow> string) \<Rightarrow> string" where
  "admin_password getenv =
     (if getenv ''NTUNL_ADMIN_PASSWORD'' = [] then DefaultAdminPassword else getenv ''NTUNL_ADMIN_PASSWORD'')"

definition BootstrapAdmin :: "(string \<Rightarrow> string) \<Rightarrow> Env \<Rightarrow> db \<Rightarrow> boot_error option \<times> db" where
  "BootstrapAdmin getenv e d =
     (case CountUsers d of
        (Inl err, d1) \<Rightarrow> (Some (BootStore err), d1)
      | (Inr n, d1) \<Rightarrow>
          (if n > 0 then (None, d1)
           else
             (case HashPassword e (admin_password getenv) of
                None \<Rightarrow> (Some HashFailed, d1)
              | Some hash \<Rightarrow>
                  (case CreateUser (now e) d1 (admin_user getenv) hash RoleAdmin of
                     (Inl err, d2) \<Rightarrow> (Some (BootStore err), d2)
                   | (Inr _, d2) \<Rightarrow> (None, d2)))))"

subsection \<open>The commands\<close>

type_synonym databases = "(string, db) gomap"

record HostEnv =
  heGetenv :: "string \<Rightarrow> string"
  heRead :: "string \<Rightarrow> string option"
  heAuth :: Env

datatype host_result = HostExited nat | HostRan TunnelHost HttpServer Portal

definition admin_flags :: flags where
  "admin_flags = fmap_of_list [(''config'', FString ''host.json''), (''username'', FString []), (''password'', FString [])]"

definition host_flags :: flags where
  "host_flags = fmap_of_list [(''config'', FString ''host.json''), (''loglevel'', FString ''info'')]"

definition createAdmin :: "HostEnv \<Rightarrow> string list \<Rightarrow> databases \<Rightarrow> host_result \<times> databases" where
  "createAdmin env args dbs =
     (case parse_flags admin_flags args of
        Inl e \<Rightarrow> (HostExited (flag_exit e), dbs)
      | Inr fs \<Rightarrow>
          (if string_flag fs ''username'' = [] \<or> string_flag fs ''password'' = [] then (HostExited 2, dbs)
           else
             (case Load (heGetenv env) (heRead env) (string_flag fs ''config'') host_fields zero_host_config of
                (cfg, Some e) \<Rightarrow> (HostExited 1, dbs)
              | (cfg, None) \<Rightarrow>
                  (let path = dsPath (hfDatabase (applyDefaults cfg)) in
                   case Open (fmlookup dbs path) of
                     (Inl e, d) \<Rightarrow> (HostExited 1, fmupd path d dbs)
                   | (Inr st, d) \<Rightarrow>
                       (case CreateAdmin (heAuth env) st (string_flag fs ''username'') (string_flag fs ''password'') of
                          (Some e, d') \<Rightarrow> (HostExited 1, fmupd path d' dbs)
                        | (None, d') \<Rightarrow> (HostExited 0, fmupd path d' dbs))))))"

definition host_main :: "HostEnv \<Rightarrow> string list \<Rightarrow> databases \<Rightarrow> host_result \<times> databases" where
  "host_main env args dbs =
     (if args \<noteq> [] \<and> hd args = ''create-admin'' then createAdmin env (tl args) dbs
      else
        (case parse_flags host_flags args of
           Inl e \<Rightarrow> (HostExited (flag_exit e), dbs)
         | Inr fs \<Rightarrow>
             (case Load (heGetenv env) (heRead env) (string_flag fs ''config'') host_fields zero_host_config of
                (cfg0, Some e) \<Rightarrow> (HostExited 1, dbs)
              | (cfg0, None) \<Rightarrow>
                  (let cfg = applyDefaults cfg0; path = dsPath (hfDatabase cfg) in
                   case Open (fmlookup dbs path) of
                     (Inl e, d) \<Rightarrow> (HostExited 1, fmupd path d dbs)
                   | (Inr st, d) \<Rightarrow>
                       (case BootstrapAdmin (heGetenv env) (heAuth env) st of
                          (Some e, d') \<Rightarrow> (HostExited 1, fmupd path d' dbs)
                        | (None, d') \<Rightarrow>
                            (HostRan (NewTunnelHost (hfTunnelHost cfg) d') (NewHttpServer (hfHttpHost cfg))
                               (New (cdDomain (thClientDomain (hfTunnelHost cfg))) (psPort (hfPortal cfg)) (psSecure (hfPortal cfg))),
                             fmupd path d' dbs))))))"

lemma applyDefaults_simps [simp]:
  "hfTunnelHost (applyDefaults cfg) = hfTunnelHost cfg" "hfHttpHost (applyDefaults cfg) = hfHttpHost cfg"
  "psSecure (hfPortal (applyDefaults cfg)) = psSecure (hfPortal cfg)"
  "dsPath (hfDatabase (applyDefaults cfg)) = (if dsPath (hfDatabase cfg) = [] then ''ntunl.db'' else dsPath (hfDatabase cfg))"
  "psPort (hfPortal (applyDefaults cfg)) = (if psPort (hfPortal cfg) = 0 then 8002 else psPort (hfPortal cfg))"
  by (simp_all add: applyDefaults_def Let_def)

subsection \<open>What a command does to the databases\<close>

definition on_disk :: "db option \<Rightarrow> db" where
  "on_disk disk = (case disk of None \<Rightarrow> empty_db | Some d \<Rightarrow> d)"

lemma on_disk_simps [simp]: "on_disk None = empty_db" "on_disk (Some d) = d"
  by (simp_all add: on_disk_def)

lemma unit_stmt: "sql (\<lambda>d. (Inr (), d)) d = (r, d') \<Longrightarrow> same_data d d'"
  by (cases rule: sql_cases [of "\<lambda>d. (Inr (), d)" d]) auto

lemma run_pragmas_same: "run_pragmas n d = (r, d') \<Longrightarrow> same_data d d'"
proof (induction n arbitrary: d)
  case (Suc n)
  obtain r1 d1 where p: "pragma d = (r1, d1)" by fastforce
  then have "same_data d d1" by (auto simp: pragma_def dest: unit_stmt)
  then show ?case using Suc p by (auto split: sum.splits intro: same_data_trans)
qed simp

lemma Open_same: "Open disk = (r, d) \<Longrightarrow> same_data (on_disk disk) d \<and> (\<forall>st. r = Inr st \<longrightarrow> st = d)"
  unfolding Open_def on_disk_def [symmetric] migrate_def
  by (auto simp: Let_def split: prod.splits sum.splits dest!: run_pragmas_same unit_stmt intro: same_data_trans)

lemma Open_no_faults: "faults (on_disk disk) = [] \<Longrightarrow> Open disk = (Inr (on_disk disk), on_disk disk)"
  unfolding Open_def on_disk_def [symmetric] by (simp add: numeral_3_eq_3 pragma_def migrate_def)

text \<open>One more administrator, and nothing else.\<close>

definition admin_added :: "db \<Rightarrow> db \<Rightarrow> bool" where
  "admin_added d d' \<longleftrightarrow> (\<exists>u. users d' = users d @ [u] \<and> IsAdmin u \<and> \<not> userDisabled u) \<and>
     tokens d' = tokens d \<and> sessions d' = sessions d \<and> events d' = events d"

lemma CreateUser_adds:
  assumes "CreateUser n d name hash RoleAdmin = (Inr i, d')"
  shows "admin_added d d'"
  using assms by (cases rule: sql_cases [of "\<lambda>d. if seq_full (user_seq d) then (Inl TableFull, d)
     else if name \<in> userName ` set (users d) then (Inl ConstraintFailed, d)
     else (let n' = user_seq d + 1 in (Inr n', d\<lparr>users := users d @
          [\<lparr>userID = n', userName = name, userHash = hash, userRole = RoleAdmin, userDisabled = False,
            userCreated = stamp n\<rparr>], user_seq := n'\<rparr>))" d])
    (auto simp: CreateUser_def admin_added_def IsAdmin_def Let_def split: if_splits)

lemma admin_added_same:
  "same_data a b \<Longrightarrow> admin_added b c \<Longrightarrow> admin_added a c"
  by (simp add: admin_added_def same_data_tables)

lemma CreateUser_error: "CreateUser n d name hash role = (Inl e, d') \<Longrightarrow> same_data d d'"
  using create_user.atomic [of n d name hash role e] by simp

lemma CreateAdmin_cases:
  assumes "CreateAdmin e d username password = (r, d')"
  shows "if r = None then admin_added d d' else same_data d d'"
  using assms by (auto simp: CreateAdmin_def split: option.splits prod.splits sum.splits dest: CreateUser_adds CreateUser_error)

lemma CountUsers_result: "CountUsers d = (r, d') \<Longrightarrow> same_data d d' \<and> (\<forall>n. r = Inr n \<longrightarrow> n = int (length (users d)))"
  by (cases rule: sql_cases [of "\<lambda>d. (Inr (int (length (users d))), d)" d]) (auto simp: CountUsers_def)

lemma BootstrapAdmin_cases:
  assumes "BootstrapAdmin getenv e d = (r, d')"
  shows "same_data d d' \<or> (users d = [] \<and> admin_added d d')"
proof -
  obtain n d1 where c: "CountUsers d = (n, d1)" by fastforce
  note s = CountUsers_result [OF c]
  show ?thesis
  proof (cases "\<exists>i. n = Inr i \<and> \<not> i > 0")
    case False
    then have "d' = d1" using assms c by (auto simp: BootstrapAdmin_def split: sum.splits)
    then show ?thesis using s by simp
  next
    case True
    then have "users d = []" using s by auto
    moreover have "same_data d1 d' \<or> admin_added d1 d'"
      using assms c True by (auto simp: BootstrapAdmin_def split: option.splits prod.splits sum.splits
        dest: CreateUser_adds CreateUser_error)
    ultimately show ?thesis using s same_data_trans admin_added_same by blast
  qed
qed

text \<open>The databases after a command: those before, but for the one at the configured path.\<close>

definition adds_at_most :: "bool \<Rightarrow> db \<Rightarrow> db \<Rightarrow> bool" where
  "adds_at_most created d d' \<longleftrightarrow> same_data d d' \<or> (admin_added d d' \<and> (users d = [] \<or> created))"

definition databases_after :: "bool \<Rightarrow> databases \<Rightarrow> databases \<Rightarrow> bool" where
  "databases_after created dbs dbs' \<longleftrightarrow>
     dbs' = dbs \<or> (\<exists>path d'. dbs' = fmupd path d' dbs \<and> adds_at_most created (on_disk (fmlookup dbs path)) d')"

lemma databases_after_refl [simp]: "databases_after created dbs dbs"
  by (simp add: databases_after_def)

lemma databases_after_upd:
  assumes "Open (fmlookup dbs path) = (x, d)" "adds_at_most created d d'"
  shows "databases_after created dbs (fmupd path d' dbs)"
proof -
  have s: "same_data (on_disk (fmlookup dbs path)) d" using Open_same [OF assms(1)] by simp
  show ?thesis
    using assms(2) s same_data_trans admin_added_same same_data_tables(1) [OF s]
    unfolding databases_after_def adds_at_most_def by metis
qed

lemma databases_after_open: "Open (fmlookup dbs path) = (x, d) \<Longrightarrow> databases_after created dbs (fmupd path d dbs)"
  by (rule databases_after_upd) (auto simp: adds_at_most_def)

lemma databases_after_boot:
  assumes "Open (fmlookup dbs path) = (Inr st, d)" "BootstrapAdmin getenv e st = (y, d')"
  shows "databases_after created dbs (fmupd path d' dbs)"
  by (rule databases_after_upd [OF assms(1)])
    (use Open_same [OF assms(1)] BootstrapAdmin_cases [OF assms(2)] in \<open>auto simp: adds_at_most_def\<close>)

lemma databases_after_create:
  assumes "Open (fmlookup dbs path) = (Inr st, d)" "CreateAdmin e st u pw = (y, d')" "y = None \<Longrightarrow> created"
  shows "databases_after created dbs (fmupd path d' dbs)"
  by (rule databases_after_upd [OF assms(1)])
    (use Open_same [OF assms(1)] CreateAdmin_cases [OF assms(2)] assms(3) in \<open>auto simp: adds_at_most_def split: if_splits\<close>)

lemma createAdmin_databases:
  "createAdmin env args dbs = (r, dbs') \<Longrightarrow> databases_after (r = HostExited 0) dbs dbs'"
  unfolding createAdmin_def
  by (auto simp: Let_def split: sum.splits prod.splits option.splits if_splits
    intro: databases_after_open databases_after_create)

lemma host_main_databases:
  "host_main env args dbs = (r, dbs') \<Longrightarrow> databases_after (args \<noteq> [] \<and> hd args = ''create-admin'' \<and> r = HostExited 0) dbs dbs'"
  using createAdmin_databases [of env "tl args" dbs r dbs'] unfolding host_main_def
  by (auto simp: Let_def split: sum.splits prod.splits option.splits if_splits
    intro: databases_after_open databases_after_boot)

subsection \<open>Properties\<close>

text \<open>
  C37. A command of the host changes no database there, but that it adds one administrator: when
  there is no user yet, or when \<open>create-admin\<close> succeeds. In particular, starting again never
  resets a password, whatever the environment says.
\<close>

theorem host_command_effect:
  assumes "host_main env args dbs = (r, dbs')" "fmlookup dbs path = Some d"
  shows "\<exists>d'. fmlookup dbs' path = Some d' \<and> (same_data d d' \<or>
    (admin_added d d' \<and> (users d = [] \<or> (args \<noteq> [] \<and> hd args = ''create-admin'' \<and> r = HostExited 0))))"
  using host_main_databases [OF assms(1)] assms(2)
  by (auto simp: databases_after_def adds_at_most_def)

lemma first_start_runs:
  assumes "Load (heGetenv env) (heRead env) ''host.json'' host_fields zero_host_config = (cfg, None)"
    and "path = (if dsPath (hfDatabase cfg) = [] then ''ntunl.db'' else dsPath (hfDatabase cfg))" "fmlookup dbs path = None"
    and "HashPassword (heAuth env) (admin_password (heGetenv env)) = Some hash"
    and "CheckPassword (heAuth env) hash (admin_password (heGetenv env))"
  shows "\<exists>d u s p. host_main env [] dbs = (HostRan (NewTunnelHost (hfTunnelHost cfg) d) s p, fmupd path d dbs) \<and>
    db_wf d \<and> users d = [u] \<and> IsAdmin u \<and> userName u = admin_user (heGetenv env) \<and>
    (\<forall>r. supplies r (admin_user (heGetenv env)) (admin_password (heGetenv env)) \<longrightarrow> password_user (heAuth env) r d u)"
proof -
  let ?u = "\<lparr>userID = 1, userName = admin_user (heGetenv env), userHash = hash, userRole = RoleAdmin,
     userDisabled = False, userCreated = stamp (now (heAuth env))\<rparr>"
  let ?d = "empty_db\<lparr>users := [?u], user_seq := 1\<rparr>"
  have o: "Open (fmlookup dbs path) = (Inr empty_db, empty_db)"
    using Open_no_faults [of "fmlookup dbs path"] assms(3) by (simp add: empty_db_def)
  have "CreateUser (now (heAuth env)) empty_db (admin_user (heGetenv env)) hash RoleAdmin = (Inr 1, ?d)"
    by (simp add: CreateUser_def empty_db_def seq_full_def Let_def)
  then have b: "BootstrapAdmin (heGetenv env) (heAuth env) empty_db = (None, ?d)"
    using assms(4) by (simp add: BootstrapAdmin_def CountUsers_def) (simp add: empty_db_def)
  have f: "parse_flags host_flags [] = Inr host_flags" "string_flag host_flags ''config'' = ''host.json''"
    by (simp_all add: host_flags_def string_flag_def)
  have w: "db_wf ?d" by (simp add: db_wf_def empty_db_def)
  have m: "\<exists>s p. host_main env [] dbs = (HostRan (NewTunnelHost (hfTunnelHost cfg) ?d) s p, fmupd path ?d dbs)"
    using o b by (simp add: host_main_def f assms(1,2) Let_def)
  have pw: "password_user (heAuth env) r ?d ?u"
    if "supplies r (admin_user (heGetenv env)) (admin_password (heGetenv env))" for r
    using that assms(5) by (auto simp: password_user_def)
  have "users ?d = [?u]" "IsAdmin ?u" "userName ?u = admin_user (heGetenv env)" by (simp_all add: IsAdmin_def)
  with w m pw show ?thesis by blast
qed

text \<open>
  C36. The first start on a new database succeeds when its configuration is read and the password can
  be hashed: the servers run on a database with one user, an enabled administrator with the
  name and password of the environment, or admin for either, and with these the portal lets in.
\<close>

theorem first_start:
  assumes "Load (heGetenv env) (heRead env) ''host.json'' host_fields zero_host_config = (cfg, None)"
    and "path = (if dsPath (hfDatabase cfg) = [] then ''ntunl.db'' else dsPath (hfDatabase cfg))" "fmlookup dbs path = None"
    and "HashPassword (heAuth env) (admin_password (heGetenv env)) = Some hash"
    and "CheckPassword (heAuth env) hash (admin_password (heGetenv env))"
  shows "\<exists>d u s p. host_main env [] dbs = (HostRan (NewTunnelHost (hfTunnelHost cfg) d) s p, fmupd path d dbs) \<and>
    db_wf d \<and> users d = [u] \<and> IsAdmin u \<and> userName u = admin_user (heGetenv env) \<and>
    (\<forall>r. supplies r (admin_user (heGetenv env)) (admin_password (heGetenv env)) \<longrightarrow> password_user (heAuth env) r d u)"
  using assms by (rule first_start_runs)

subsection \<open>A concrete host\<close>

definition sample_host :: HostEnv where
  "sample_host = \<lparr>heGetenv = (\<lambda>v. if v = ''NTUNL_ADMIN_USER'' then ''root'' else []),
     heRead = (\<lambda>path. if path = ''host.json'' then Some (print_json (JObj [])) else None), heAuth = sample_env\<rparr>"

lemma host_command_effect_witness:
  "\<exists>d'. fmlookup (snd (host_main sample_host [] (fmupd ''ntunl.db'' sample_db fmempty))) ''ntunl.db'' = Some d' \<and>
     same_data sample_db d'"
  using host_command_effect [OF prod.collapse [symmetric], of "fmupd ''ntunl.db'' sample_db fmempty" "''ntunl.db''" sample_db
    sample_host "[]"] by simp

lemma sample_host_simps:
  "Load (heGetenv sample_host) (heRead sample_host) ''host.json'' host_fields zero_host_config = (zero_host_config, None)"
  "HashPassword (heAuth sample_host) (admin_password (heGetenv sample_host)) = Some ''#admin''"
  "CheckPassword (heAuth sample_host) ''#admin'' (admin_password (heGetenv sample_host))"
  "admin_user (heGetenv sample_host) = ''root''"
proof -
  have j: "parse_json (print_json (JObj [])) = Some (JObj [])" by (rule parse_json_print) simp
  show "Load (heGetenv sample_host) (heRead sample_host) ''host.json'' host_fields zero_host_config = (zero_host_config, None)"
    by (simp add: Load_def config_path_def sample_host_def j dec_struct_def del: print_json.simps)
  show "admin_user (heGetenv sample_host) = ''root''"
    by (simp add: admin_user_def sample_host_def)
  have p: "admin_password (heGetenv sample_host) = ''admin''"
    by (simp add: admin_password_def sample_host_def DefaultAdminPassword_def)
  show "HashPassword (heAuth sample_host) (admin_password (heGetenv sample_host)) = Some ''#admin''"
    "CheckPassword (heAuth sample_host) ''#admin'' (admin_password (heGetenv sample_host))"
    unfolding p by (simp_all add: sample_host_def HashPassword_def CheckPassword_def sample_env_def)
qed

lemma first_start_witness:
  "\<exists>d u s p. host_main sample_host [] fmempty = (HostRan (NewTunnelHost (hfTunnelHost zero_host_config) d) s p, fmupd ''ntunl.db'' d fmempty) \<and>
     users d = [u] \<and> IsAdmin u \<and> userName u = ''root''"
  using first_start [OF sample_host_simps(1) refl _ sample_host_simps(2,3), of fmempty] sample_host_simps(4)
  by (auto simp: zero_host_config_def)

end
