(* ===== verification/HostSystem.thy ===== *)
theory HostSystem
  imports HostMain
begin

text \<open>
  The running host as one system: it is started by a command, and then answers visits, takes
  connections of clients and serves the portal, all on one state. Each of these is a whole step
  here; how the steps of connections and requests interleave is in \<open>TunnelSteps\<close>.
\<close>

subsection \<open>Administrators\<close>







subsection \<open>The invariant of the host\<close>
















subsection \<open>The system\<close>










end
