(* ===== verification/ClientMain.thy ===== *)
theory ClientMain
  imports Client Config Flags
begin

text \<open>
  The client's command line (\<open>cmd/client/main.go\<close>) and its configuration file. The files it reads
  and the stored credentials are in one \<open>Disk\<close>; messages are left out, exit codes are not.
\<close>

subsection \<open>The configuration (\<open>internal/client/config.go\<close>)\<close>

definition zero_tunnel :: TunnelSetting where
  "zero_tunnel = \<lparr>tsSslEnabled = False, tsAllowInvalid = False, tsNtunlAddress = [], tsDesiredSubdomain = [],
     tsAddress = [], tsHostHeader = [], tsCustomHeader = fmempty, tsRewriteEnabled = False, tsRewritePattern = []\<rparr>"

definition tunnel_fields :: "TunnelSetting fields" where
  "tunnel_fields =
    [(''sslEnabled'', field tsSslEnabled tsSslEnabled_update dec_bool),
     (''allowInvalidCertificates'', field tsAllowInvalid tsAllowInvalid_update dec_bool),
     (''ntunlAddress'', field tsNtunlAddress tsNtunlAddress_update dec_string),
     (''desiredSubdomain'', field tsDesiredSubdomain tsDesiredSubdomain_update dec_string),
     (''address'', field tsAddress tsAddress_update dec_string),
     (''hostHeader'', field tsHostHeader tsHostHeader_update dec_string),
     (''customHeader'', field tsCustomHeader tsCustomHeader_update dec_headers),
     (''rewriteUrlEnabled'', field tsRewriteEnabled tsRewriteEnabled_update dec_bool),
     (''rewriteUrlPattern'', field tsRewritePattern tsRewritePattern_update dec_string)]"

definition inspector_fields :: "InspectorConfig fields" where
  "inspector_fields =
    [(''enabled'', field icEnabled icEnabled_update dec_bool),
     (''port'', field icPort icPort_update dec_int)]"

definition config_fields :: "Config fields" where
  "config_fields =
    [(''tunnels'', field cfTunnels cfTunnels_update (dec_list (dec_struct tunnel_fields) zero_tunnel)),
     (''inspector'', field cfInspector cfInspector_update (dec_struct inspector_fields)),
     (''portalAddress'', field cfPortalAddress cfPortalAddress_update dec_string)]"

definition zero_config :: Config where
  "zero_config = \<lparr>cfTunnels = [], cfInspector = \<lparr>icEnabled = False, icPort = 0\<rparr>, cfPortalAddress = []\<rparr>"

subsection \<open>The commands\<close>

text \<open>
  The terminal and the portal are given for an exchange that verifies the certificate or, with
  \<open>-insecure\<close>, does not. A client that runs does so until it is interrupted.
\<close>

record ClientEnv =
  ceGetenv :: "string \<Rightarrow> string"
  ceCompile :: "string \<Rightarrow> regex option"
  ceLogin :: "bool \<Rightarrow> LoginInput"

datatype client_result = Exited nat | Ran Client

definition read_file :: "Disk \<Rightarrow> string \<Rightarrow> string option" where
  "read_file d path = (if dkReadFails d then None else map_option snd (fmlookup (dkFiles d) path))"

definition loadClientConfig :: "ClientEnv \<Rightarrow> Disk \<Rightarrow> string \<Rightarrow> Config \<times> load_error option" where
  "loadClientConfig env d configPath = Load (ceGetenv env) (read_file d) configPath config_fields zero_config"

fun hosts_loop :: "TunnelSetting list \<Rightarrow> string list \<Rightarrow> string list" where
  "hosts_loop [] hosts = hosts"
| "hosts_loop (t # ts) hosts = hosts_loop ts (if tsNtunlAddress t \<noteq> [] then hosts @ [tsNtunlAddress t] else hosts)"

definition tunnelHosts :: "Config \<Rightarrow> string list" where
  "tunnelHosts cfg = hosts_loop (cfTunnels cfg) []"

definition derivePortalURL :: "Config \<Rightarrow> string" where
  "derivePortalURL cfg =
     (case cfTunnels cfg of
        [] \<Rightarrow> []
      | t # _ \<Rightarrow>
          (let addr = tsNtunlAddress t;
               host = (case SplitHostPort addr of Some (h, _) \<Rightarrow> h | None \<Rightarrow> addr)
           in if host = [] then [] else ''http://'' @ host @ '':8002''))"

definition run_flags :: flags where
  "run_flags = fmap_of_list [(''config'', FString ''client.json''), (''loglevel'', FString ''debug'')]"

definition login_flags :: flags where
  "login_flags = fmap_of_list [(''portal'', FString []), (''config'', FString ''client.json''), (''insecure'', FBool False)]"

definition logout_flags :: flags where
  "logout_flags = fmap_of_list [(''host'', FString []), (''config'', FString ''client.json'')]"

definition runTunnel :: "ClientEnv \<Rightarrow> string list \<Rightarrow> Disk \<Rightarrow> client_result \<times> Disk" where
  "runTunnel env args d =
     (case parse_flags run_flags args of
        Inl e \<Rightarrow> (Exited (flag_exit e), d)
      | Inr fs \<Rightarrow>
          (case Load (ceGetenv env) (read_file d) (string_flag fs ''config'') config_fields zero_config of
             (cfg, Some e) \<Rightarrow> (Exited 1, d)
           | (cfg, None) \<Rightarrow>
               (case NewClient (ceCompile env) d cfg of
                  Inl e \<Rightarrow> (Exited 1, d)
                | Inr c \<Rightarrow> (Ran c, d))))"

definition runLogin :: "ClientEnv \<Rightarrow> string list \<Rightarrow> Disk \<Rightarrow> client_result \<times> Disk" where
  "runLogin env args d =
     (case parse_flags login_flags args of
        Inl e \<Rightarrow> (Exited (flag_exit e), d)
      | Inr fs \<Rightarrow>
          (let cfg = fst (loadClientConfig env d (string_flag fs ''config''));
               url = string_flag fs ''portal'';
               url = (if url = [] then cfPortalAddress cfg else url);
               url = (if url = [] then derivePortalURL cfg else url)
           in if url = [] then (Exited 2, d)
              else (let hosts = tunnelHosts cfg in
                    case Login (ceLogin env (bool_flag fs ''insecure'')) url hosts d of
                      (Inl _, d') \<Rightarrow> (Exited 1, d')
                    | (Inr _, d') \<Rightarrow> (Exited 0, d'))))"

definition runLogout :: "ClientEnv \<Rightarrow> string list \<Rightarrow> Disk \<Rightarrow> client_result \<times> Disk" where
  "runLogout env args d =
     (case parse_flags logout_flags args of
        Inl e \<Rightarrow> (Exited (flag_exit e), d)
      | Inr fs \<Rightarrow>
          (let hosts = (if string_flag fs ''host'' \<noteq> [] then [string_flag fs ''host'']
                        else tunnelHosts (fst (loadClientConfig env d (string_flag fs ''config''))))
           in if hosts = [] then (Exited 2, d)
              else (case Logout hosts d of
                      (Inl _, d') \<Rightarrow> (Exited 1, d')
                    | (Inr _, d') \<Rightarrow> (Exited 0, d'))))"

text \<open>\<open>args\<close> is \<open>os.Args[1:]\<close>.\<close>

definition client_main :: "ClientEnv \<Rightarrow> string list \<Rightarrow> Disk \<Rightarrow> client_result \<times> Disk" where
  "client_main env args d =
     (let (cmd, args) = (if args \<noteq> [] \<and> \<not> has_prefix (hd args) ''-'' then (hd args, tl args) else (''run'', args)) in
      if cmd = ''login'' then runLogin env args d
      else if cmd = ''logout'' then runLogout env args d
      else if cmd = ''run'' then runTunnel env args d
      else (Exited 2, d))"

subsection \<open>The fields\<close>

lemma config_names [simp]:
  "\<not> same_field ''portalAddress'' ''tunnels''" "\<not> same_field ''portalAddress'' ''inspector''"
  by code_simp+

interpretation portal_address: struct_field config_fields "''portalAddress''" cfPortalAddress cfPortalAddress_update dec_string
  by unfold_locales (simp_all add: config_fields_def find_field_def field_def split: prod.splits)

interpretation tunnels: struct_field config_fields "''tunnels''" cfTunnels cfTunnels_update
  "dec_list (dec_struct tunnel_fields) zero_tunnel"
  by unfold_locales (simp_all add: config_fields_def find_field_def field_def split: prod.splits)

subsection \<open>What a command leaves alone\<close>

text \<open>
  Only the file of the credentials is written, and when the command does not succeed, only by a
  write that broke off.
\<close>

definition keeps_files :: "Disk \<Rightarrow> Disk \<Rightarrow> bool \<Rightarrow> bool" where
  "keeps_files d d' done_ok \<longleftrightarrow>
     (\<forall>path. credentialsPath d \<noteq> Some path \<longrightarrow> fmlookup (dkFiles d') path = fmlookup (dkFiles d) path) \<and>
     (done_ok \<or> d' = d \<or> (\<exists>n. dkWrite d = WriteBreaks n))"

lemma keeps_files_refl [simp]: "keeps_files d d ok"
  by (simp add: keeps_files_def)

lemma Save_keeps: "Save c d = (r, d') \<Longrightarrow> keeps_files d d' (r = Inr ())"
  by (auto simp: Save_def WriteFile_def keeps_files_def Let_def split: option.splits if_splits prod.splits write_result.splits)

lemma Login_keeps: "Login i portal addrs d = (r, d') \<Longrightarrow> keeps_files d d' (\<exists>keys. r = Inr keys)"
  unfolding Login_def Let_def
  by (auto split: option.splits sum.splits prod.splits if_splits dest: Save_keeps)

lemma Logout_keeps: "Logout addrs d = (r, d') \<Longrightarrow> keeps_files d d' (\<exists>keys. r = Inr keys)"
  unfolding Logout_def by (auto split: sum.splits prod.splits dest: Save_keeps)

lemma runLogin_keeps: "runLogin env args d = (r, d') \<Longrightarrow> keeps_files d d' (r = Exited 0)"
  unfolding runLogin_def Let_def by (auto split: sum.splits prod.splits if_splits dest: Login_keeps)

lemma runLogout_keeps: "runLogout env args d = (r, d') \<Longrightarrow> keeps_files d d' (r = Exited 0)"
  unfolding runLogout_def Let_def by (auto split: sum.splits prod.splits if_splits dest: Logout_keeps)

lemma runTunnel_keeps: "runTunnel env args d = (r, d') \<Longrightarrow> d = d'"
  unfolding runTunnel_def by (auto split: sum.splits prod.splits option.splits)

lemma hosts_loop_spec: "hosts_loop ts hosts = hosts @ filter (\<lambda>a. a \<noteq> []) (map tsNtunlAddress ts)"
  by (induction ts arbitrary: hosts) simp_all

subsection \<open>Properties\<close>

text \<open>
  C34. Whatever its arguments, a command of the client writes no file but that of the credentials,
  and a command that does not end with 0 writes nothing unless a write of that file breaks off.
\<close>

theorem commands_keep_files:
  assumes "client_main env args d = (r, d')"
  shows "keeps_files d d' (r = Exited 0)"
  using assms unfolding client_main_def
  by (auto simp: Let_def dest: runLogin_keeps runLogout_keeps runTunnel_keeps split: if_splits prod.splits)

text \<open>
  \<open>login\<close> without a flag takes portal and hosts from the members of those names of the
  configuration file, whatever the types of its other members; without a portal address it
  falls back to port 8002 of the host of the first tunnel.
\<close>

lemma login_command:
  assumes "read_file d (config_path (ceGetenv env) ''client.json'') = Some data" "parse_json data = Some (JObj kvs)"
    and "pa = fold (\<lambda>(k, v) x. if same_field k ''portalAddress'' then fst (dec_string x v) else x) kvs []"
    and "ts = fold (\<lambda>(k, v) x. if same_field k ''tunnels'' then fst (dec_list (dec_struct tunnel_fields) zero_tunnel x v) else x) kvs []"
    and "portal = (if pa = [] then derivePortalURL (zero_config\<lparr>cfTunnels := ts\<rparr>) else pa)" "portal \<noteq> []"
  shows "client_main env [''login''] d =
    (case Login (ceLogin env False) portal (filter (\<lambda>a. a \<noteq> []) (map tsNtunlAddress ts)) d of
       (Inl e, d') \<Rightarrow> (Exited 1, d') | (Inr keys, d') \<Rightarrow> (Exited 0, d'))"
proof -
  let ?cfg = "fst (loadClientConfig env d ''client.json'')"
  have "parse_flags login_flags [] = Inr login_flags" by simp
  moreover have "string_flag login_flags ''portal'' = []" "string_flag login_flags ''config'' = ''client.json''"
    "bool_flag login_flags ''insecure'' = False"
    by (simp_all add: string_flag_def bool_flag_def login_flags_def)
  moreover have pa: "cfPortalAddress ?cfg = pa" and ts: "cfTunnels ?cfg = ts"
    using portal_address.get_Load [of "read_file d", OF assms(1,2)]
      tunnels.get_Load [of "read_file d", OF assms(1,2)] assms(3,4)
    by (simp_all add: loadClientConfig_def zero_config_def)
  moreover have "tunnelHosts ?cfg = filter (\<lambda>a. a \<noteq> []) (map tsNtunlAddress ts)"
    by (simp add: tunnelHosts_def hosts_loop_spec ts)
  moreover have "derivePortalURL ?cfg = derivePortalURL (zero_config\<lparr>cfTunnels := ts\<rparr>)"
    by (simp add: derivePortalURL_def ts)
  ultimately show ?thesis
    using assms(5,6) unfolding client_main_def runLogin_def by (simp add: has_prefix_def Let_def split: if_splits)
qed

text \<open>
  The portal a login falls back to is on the host of the tunnel, and the token it stores is
  filed under that very host, for an address that is a host name with or without a port.
\<close>

lemma fallback_portal:
  assumes "cfTunnels cfg = t # ts" "authority_of h (tsNtunlAddress t)"
  shows "derivePortalURL cfg = ''http://'' @ h @ '':8002'' \<and> HostKey (derivePortalURL cfg) = HostKey (tsNtunlAddress t)"
proof
  let ?a = "tsNtunlAddress t"
  have h: "plain_host h" "h \<noteq> []" using assms(2) by (simp_all add: authority_of_def plain_host_def)
  have "(case SplitHostPort ?a of Some (h, _) \<Rightarrow> h | None \<Rightarrow> ?a) = h"
    by (simp add: split_authority [OF assms(2)])
  then show d: "derivePortalURL cfg = ''http://'' @ h @ '':8002''"
    using assms(1) h(2) by (simp only: derivePortalURL_def list.case Let_def) simp
  have "list_all is_digit ''8002''" "plain_path []" by code_simp+
  then have p: "authority_of h (h @ '':8002'')" "plain_path []"
    using h(1) by (auto simp: authority_of_def)
  have "HostKey (''http'' @ ''://'' @ (h @ '':8002'') @ []) = to_lower h"
    using host_key_uniform [OF p, of "''http''"] by simp
  then show "HostKey (derivePortalURL cfg) = HostKey ?a"
    using host_key_uniform [OF assms(2) p(2), of "''http''"] by (simp add: d)
qed

text \<open>The brackets of an IPv6 address are lost, so that the URL has no host that can be dialed.\<close>

lemma ipv6_portal:
  "derivePortalURL (zero_config\<lparr>cfTunnels := [zero_tunnel\<lparr>tsNtunlAddress := ''[::1]:8001''\<rparr>]\<rparr>) = ''http://::1:8002''"
  by code_simp

subsection \<open>A concrete command line\<close>

definition sample_cli :: ClientEnv where
  "sample_cli = \<lparr>ceGetenv = (\<lambda>_. []), ceCompile = (\<lambda>p. None),
     ceLogin = (\<lambda>insecure. \<lparr>liLine = None, liPassword = None, liPost = (\<lambda>_ _. None)\<rparr>)\<rparr>"

text \<open>A configuration whose inspector is of the wrong type.\<close>

definition sample_json :: json where
  "sample_json = JObj [(''inspector'', JBool True), (''portalAddress'', JStr ''https://portal.example'')]"

definition config_disk :: Disk where
  "config_disk = sample_disk\<lparr>dkFiles := fmap_of_list [(''client.json'', (420, print_json sample_json))]\<rparr>"

lemma commands_keep_files_witness:
  "keeps_files config_disk (snd (client_main sample_cli [''login'', ''-insecure''] config_disk))
     (fst (client_main sample_cli [''login'', ''-insecure''] config_disk) = Exited 0)"
  by (rule commands_keep_files [OF prod.collapse [symmetric]])

lemma login_command_witness:
  "client_main sample_cli [''login''] config_disk =
    (case Login (ceLogin sample_cli False) ''https://portal.example'' [] config_disk of
       (Inl _, d') \<Rightarrow> (Exited 1, d') | (Inr keys, d') \<Rightarrow> (Exited 0, d'))"
proof -
  have r: "read_file config_disk (config_path (ceGetenv sample_cli) ''client.json'') = Some (print_json sample_json)"
    by (simp add: read_file_def config_path_def sample_cli_def config_disk_def sample_disk_def)
  have "json_ok sample_json" unfolding sample_json_def by code_simp
  then have p: "parse_json (print_json sample_json) =
      Some (JObj [(''inspector'', JBool True), (''portalAddress'', JStr ''https://portal.example'')])"
    by (simp add: parse_json_print) (simp add: sample_json_def)
  have n: "same_field ''inspector'' ''portalAddress'' = False" "same_field ''inspector'' ''tunnels'' = False" by code_simp+
  show ?thesis
    using login_command [OF r p refl refl refl] by (simp add: n dec_string_def)
qed

lemma fallback_portal_witness:
  "HostKey (derivePortalURL (zero_config\<lparr>cfTunnels := [sample_setting]\<rparr>)) = HostKey ''host.example:9000''"
proof -
  have "plain_host ''host.example''" "list_all is_digit ''9000''" by code_simp+
  moreover have "tsNtunlAddress sample_setting = ''host.example'' @ '':'' @ ''9000''" by (simp add: sample_setting_def)
  ultimately have "authority_of ''host.example'' (tsNtunlAddress sample_setting)"
    unfolding authority_of_def by (metis list.distinct(1))
  moreover have "tsNtunlAddress sample_setting = ''host.example:9000''" by (simp add: sample_setting_def)
  moreover have "cfTunnels (zero_config\<lparr>cfTunnels := [sample_setting]\<rparr>) = [sample_setting]" by simp
  ultimately show ?thesis
    using fallback_portal [of "zero_config\<lparr>cfTunnels := [sample_setting]\<rparr>" sample_setting "[]" "''host.example''"] by metis
qed

end
