(* ===== verification/Certs.thy ===== *)
theory Certs
  imports Credentials Base64
begin

text \<open>
  The certificate of the tunnel's TLS listener (\<open>internal/certs/certs.go\<close>). Key generation, the
  serial number, signing, the DER encodings and the parser of a pair are arguments; PEM and the
  files are written out. \<open>None\<close> is an error of the call.
\<close>

record Template =
  tmSerialNumber :: int
  tmCommonName :: string
  tmNotBefore :: int
  tmNotAfter :: int
  tmDigitalSignature :: bool
  tmBasicConstraintsValid :: bool

text \<open>\<open>'k\<close> is a private key and \<open>'c\<close> a parsed pair; the second write has its own outcome.\<close>

record ('k, 'c) Crypto =
  crGenerateKey :: "'k option"
  crSerial :: "int option"
  crNow :: int
  crAddYears :: "int \<Rightarrow> nat \<Rightarrow> int"
  crCreateCertificate :: "Template \<Rightarrow> 'k \<Rightarrow> string option"
  crMarshalPKCS8 :: "'k \<Rightarrow> string option"
  crX509KeyPair :: "string \<Rightarrow> string \<Rightarrow> 'c option"
  crKeyWrite :: write_result

datatype cert_error = KeyFailed | SerialFailed | CreateFailed | MarshalPanic | WriteCert | WriteKey | ReadPair | ParsePair

subsection \<open>PEM\<close>

text \<open>The base64 text in lines of 64 bytes, each ended by a newline.\<close>

fun pem_lines :: "nat \<Rightarrow> string \<Rightarrow> string" where
  "pem_lines 0 s = []"
| "pem_lines (Suc n) s = (if s = [] then [] else take 64 s @ [CHR 0x0A] @ pem_lines n (drop 64 s))"

definition pem_encode :: "string \<Rightarrow> string \<Rightarrow> string" where
  "pem_encode typ bytes =
     (let text = b64_encode bytes in
      ''-----BEGIN '' @ typ @ ''-----'' @ [CHR 0x0A] @ pem_lines (length text) text
        @ ''-----END '' @ typ @ ''-----'' @ [CHR 0x0A])"

subsection \<open>The operations\<close>

definition fileExists :: "Disk \<Rightarrow> string \<Rightarrow> bool" where
  "fileExists d path \<longleftrightarrow> fmlookup (dkFiles d) path \<noteq> None"

definition LoadX509KeyPair :: "('k, 'c) Crypto \<Rightarrow> Disk \<Rightarrow> string \<Rightarrow> string \<Rightarrow> cert_error + 'c" where
  "LoadX509KeyPair cr d certPath keyPath =
     (case (fmlookup (dkFiles d) certPath, fmlookup (dkFiles d) keyPath) of
        (Some (_, certPEM), Some (_, keyPEM)) \<Rightarrow>
          (if dkReadFails d then Inl ReadPair
           else (case crX509KeyPair cr certPEM keyPEM of None \<Rightarrow> Inl ParsePair | Some c \<Rightarrow> Inr c))
      | _ \<Rightarrow> Inl ReadPair)"

definition certificate_template :: "('k, 'c) Crypto \<Rightarrow> int \<Rightarrow> Template" where
  "certificate_template cr serial = \<lparr>tmSerialNumber = serial, tmCommonName = ''localhost'', tmNotBefore = crNow cr,
     tmNotAfter = crAddYears cr (crNow cr) 5, tmDigitalSignature = True, tmBasicConstraintsValid = True\<rparr>"

text \<open>\<open>mustPKCS8\<close> panics on an error.\<close>

definition generate :: "('k, 'c) Crypto \<Rightarrow> string \<Rightarrow> string \<Rightarrow> Disk \<Rightarrow> (cert_error + 'c) \<times> Disk" where
  "generate cr certPath keyPath d =
     (case crGenerateKey cr of
        None \<Rightarrow> (Inl KeyFailed, d)
      | Some key \<Rightarrow>
          (case crSerial cr of
             None \<Rightarrow> (Inl SerialFailed, d)
           | Some serial \<Rightarrow>
               (case crCreateCertificate cr (certificate_template cr serial) key of
                  None \<Rightarrow> (Inl CreateFailed, d)
                | Some der \<Rightarrow>
                    (let certPEM = pem_encode ''CERTIFICATE'' der in
                     case crMarshalPKCS8 cr key of
                       None \<Rightarrow> (Inl MarshalPanic, d)
                     | Some pkcs \<Rightarrow>
                         (let keyPEM = pem_encode ''PRIVATE KEY'' pkcs in
                          case WriteFile certPath certPEM 384 d of
                            (False, d1) \<Rightarrow> (Inl WriteCert, d1)
                          | (True, d1) \<Rightarrow>
                              (case WriteFile keyPath keyPEM 384 (d1\<lparr>dkWrite := crKeyWrite cr\<rparr>) of
                                 (False, d2) \<Rightarrow> (Inl WriteKey, d2)
                               | (True, d2) \<Rightarrow>
                                   (case crX509KeyPair cr certPEM keyPEM of
                                      None \<Rightarrow> (Inl ParsePair, d2)
                                    | Some c \<Rightarrow> (Inr c, d2))))))))"

definition GetOrCreate :: "('k, 'c) Crypto \<Rightarrow> string \<Rightarrow> string \<Rightarrow> Disk \<Rightarrow> (cert_error + 'c) \<times> Disk" where
  "GetOrCreate cr certPath keyPath d =
     (if fileExists d certPath \<and> fileExists d keyPath then (LoadX509KeyPair cr d certPath keyPath, d)
      else generate cr certPath keyPath d)"

subsection \<open>Starting again\<close>

lemma WriteFile_done:
  "WriteFile path data perm d = (True, d') \<Longrightarrow>
    (\<exists>mode. dkFiles d' = fmupd path (mode, data) (dkFiles d)) \<and> dkReadFails d' = dkReadFails d"
  by (auto simp: WriteFile_def Let_def split: write_result.splits)

lemma generate_files:
  assumes "generate cr certPath keyPath d = (Inr c, d')" "certPath \<noteq> keyPath"
  obtains certPEM keyPEM m m' where "fmlookup (dkFiles d') certPath = Some (m, certPEM)"
    "fmlookup (dkFiles d') keyPath = Some (m', keyPEM)" "crX509KeyPair cr certPEM keyPEM = Some c"
    "dkReadFails d' = dkReadFails d"
  using assms by (auto simp: generate_def Let_def dest!: WriteFile_done split: option.splits prod.splits bool.splits)

lemma reuse:
  assumes "GetOrCreate cr certPath keyPath d = (Inr c, d')" "certPath \<noteq> keyPath" "\<not> dkReadFails d"
    and "crX509KeyPair cr' = crX509KeyPair cr"
  shows "GetOrCreate cr' certPath keyPath d' = (Inr c, d')"
proof (cases "fileExists d certPath \<and> fileExists d keyPath")
  case True
  then show ?thesis
    using assms(1,4) by (auto simp: GetOrCreate_def LoadX509KeyPair_def split: option.splits prod.splits if_splits)
next
  case False
  then have "generate cr certPath keyPath d = (Inr c, d')" using assms(1) by (simp only: GetOrCreate_def if_False)
  then show ?thesis
    by (rule generate_files [OF _ assms(2)])
      (use assms(3,4) in \<open>simp add: GetOrCreate_def fileExists_def LoadX509KeyPair_def\<close>)
qed

text \<open>
  A write of the key that breaks off leaves a file there: every later start then fails to parse it
  and none replaces it.
\<close>

lemma broken_key_sticks:
  assumes "generate cr certPath keyPath d = (Inl WriteKey, d')" "crKeyWrite cr = WriteBreaks n" "certPath \<noteq> keyPath"
    and "\<not> dkReadFails d" "\<forall>c k. length k \<le> n \<longrightarrow> crX509KeyPair cr' c k = None"
  shows "GetOrCreate cr' certPath keyPath d' = (Inl ParsePair, d')"
proof -
  obtain certPEM m keyPEM m' where "fmlookup (dkFiles d') certPath = Some (m, certPEM)"
      "fmlookup (dkFiles d') keyPath = Some (m', take n keyPEM)" "dkReadFails d' = dkReadFails d"
    using assms(1-3) by (auto simp: generate_def Let_def dest!: WriteFile_done split: option.splits prod.splits bool.splits)
      (auto simp: WriteFile_def Let_def)
  then show ?thesis using assms(4,5) by (simp add: GetOrCreate_def fileExists_def LoadX509KeyPair_def)
qed

lemma WriteFile_others: "WriteFile path data perm d = (ok, d') \<Longrightarrow> p \<noteq> path \<Longrightarrow> fmlookup (dkFiles d') p = fmlookup (dkFiles d) p"
  by (auto simp: WriteFile_def Let_def split: write_result.splits)

lemma GetOrCreate_others:
  assumes "GetOrCreate cr certPath keyPath d = (r, d')" "p \<notin> {certPath, keyPath}"
  shows "fmlookup (dkFiles d') p = fmlookup (dkFiles d) p"
proof (cases "fileExists d certPath \<and> fileExists d keyPath")
  case False
  then have "generate cr certPath keyPath d = (r, d')" using assms(1) by (simp only: GetOrCreate_def if_False)
  then show ?thesis
    using assms(2) by (auto simp: generate_def Let_def dest!: WriteFile_others [where p = p] split: option.splits prod.splits bool.splits)
qed (use assms(1) in \<open>simp add: GetOrCreate_def\<close>)

subsection \<open>The property\<close>

text \<open>
  C40. A certificate is made once: after a call succeeded, every later one, whatever key or serial
  number it would draw, gives the same pair and writes nothing; and no other file is written.
\<close>

theorem certificate_reused:
  assumes "GetOrCreate cr certPath keyPath d = (Inr c, d')" "certPath \<noteq> keyPath" "\<not> dkReadFails d"
    and "crX509KeyPair cr' = crX509KeyPair cr"
  shows "GetOrCreate cr' certPath keyPath d' = (Inr c, d') \<and>
    (\<forall>p. p = certPath \<or> p = keyPath \<or> fmlookup (dkFiles d') p = fmlookup (dkFiles d) p)"
  using reuse [OF assms] GetOrCreate_others [OF assms(1)] by blast

subsection \<open>A concrete start\<close>

definition sample_crypto :: "string \<Rightarrow> (string, string) Crypto" where
  "sample_crypto key = \<lparr>crGenerateKey = Some key, crSerial = Some 7, crNow = 0,
     crAddYears = (\<lambda>t n. t + int n * 31536000 * 1000000000), crCreateCertificate = (\<lambda>tm k. Some (tmCommonName tm)),
     crMarshalPKCS8 = (\<lambda>k. Some k), crX509KeyPair = (\<lambda>c k. Some (c @ k)), crKeyWrite = WriteOk\<rparr>"

lemma certificate_reused_witness:
  "GetOrCreate (sample_crypto ''new'') ''cert.pem'' ''key.pem'' (snd (GetOrCreate (sample_crypto ''old'') ''cert.pem'' ''key.pem'' sample_disk))
     = GetOrCreate (sample_crypto ''old'') ''cert.pem'' ''key.pem'' sample_disk"
proof -
  obtain c where c: "fst (GetOrCreate (sample_crypto ''old'') ''cert.pem'' ''key.pem'' sample_disk) = Inr c"
    by (simp add: GetOrCreate_def fileExists_def generate_def sample_crypto_def sample_disk_def WriteFile_def Let_def)
  then have g: "GetOrCreate (sample_crypto ''old'') ''cert.pem'' ''key.pem'' sample_disk =
      (Inr c, snd (GetOrCreate (sample_crypto ''old'') ''cert.pem'' ''key.pem'' sample_disk))"
    by (metis prod.collapse)
  have "\<not> dkReadFails sample_disk" "''cert.pem'' \<noteq> ''key.pem''" by (simp_all add: sample_disk_def)
  moreover have "crX509KeyPair (sample_crypto ''new'') = crX509KeyPair (sample_crypto ''old'')"
    by (simp add: sample_crypto_def)
  ultimately show ?thesis using certificate_reused [OF g] g by metis
qed

end
