(* ===== verification/Servers.thy ===== *)
theory Servers
  imports Certs
begin

text \<open>
  How the programs run and stop: the \<open>Run\<close> of the tunnel host, the HTTP server, the portal and the
  inspector, the group of the three in \<open>cmd/host/main.go\<close>, and \<open>Client.Run\<close>. A server is its listening
  goroutine and the goroutine that waits for the context; a step is one action of one of them.
  Whether binding an address or accepting can fail is an argument.
\<close>

datatype run_error = CertificateError cert_error | BindError | AcceptError

subsection \<open>One server\<close>

text \<open>
  \<open>ListenAndServe\<close> tests whether \<open>Shutdown\<close> was called, binds, and accepts; when accepting ends it
  tests again. \<open>Shutdown\<close> makes it return at once and itself goes on until the requests in work
  are done or five seconds are over.
\<close>

datatype phase = Setup | Starting | Binding | Accepting | Returned "run_error option" | Gone

datatype watcher = NoWatcher | Waiting | ShuttingDown | Drained

record Server =
  svPhase :: phase
  svWatcher :: watcher

datatype act = Prepare | Check | Bind | BindFails | AcceptFails | Close | Watch | Drain

definition shut :: "Server \<Rightarrow> bool" where
  "shut s \<longleftrightarrow> svWatcher s \<in> {ShuttingDown, Drained}"

text \<open>\<open>cancelled\<close>: the context is done; \<open>err\<close>: the error of the set-up.\<close>

fun server_act :: "bool \<Rightarrow> run_error option \<Rightarrow> act \<Rightarrow> Server \<Rightarrow> Server option" where
  "server_act cancelled err Prepare s =
     (if svPhase s \<noteq> Setup then None
      else if err \<noteq> None then Some (s\<lparr>svPhase := Returned err\<rparr>)
      else Some (s\<lparr>svPhase := Starting, svWatcher := Waiting\<rparr>))"
| "server_act cancelled err Check s =
     (if svPhase s \<noteq> Starting then None
      else Some (s\<lparr>svPhase := (if shut s then Returned None else Binding)\<rparr>))"
| "server_act cancelled err Bind s =
     (if svPhase s \<noteq> Binding then None else Some (s\<lparr>svPhase := Accepting\<rparr>))"
| "server_act cancelled err BindFails s =
     (if svPhase s \<noteq> Binding then None else Some (s\<lparr>svPhase := Returned (Some BindError)\<rparr>))"
| "server_act cancelled err AcceptFails s =
     (if svPhase s \<noteq> Accepting \<or> shut s then None else Some (s\<lparr>svPhase := Returned (Some AcceptError)\<rparr>))"
| "server_act cancelled err Close s =
     (if svPhase s \<noteq> Accepting \<or> \<not> shut s then None else Some (s\<lparr>svPhase := Returned None\<rparr>))"
| "server_act cancelled err Watch s =
     (if svWatcher s \<noteq> Waiting \<or> \<not> cancelled then None else Some (s\<lparr>svWatcher := ShuttingDown\<rparr>))"
| "server_act cancelled err Drain s =
     (if svWatcher s \<noteq> ShuttingDown then None else Some (s\<lparr>svWatcher := Drained\<rparr>))"

definition new_server :: Server where
  "new_server = \<lparr>svPhase = Setup, svWatcher = NoWatcher\<rparr>"

definition phase_work :: "phase \<Rightarrow> nat" where
  "phase_work ph = (case ph of Setup \<Rightarrow> 5 | Starting \<Rightarrow> 4 | Binding \<Rightarrow> 3 | Accepting \<Rightarrow> 2 | Returned _ \<Rightarrow> 1 | Gone \<Rightarrow> 0)"

definition watcher_work :: "watcher \<Rightarrow> nat" where
  "watcher_work w = (case w of NoWatcher \<Rightarrow> 3 | Waiting \<Rightarrow> 2 | ShuttingDown \<Rightarrow> 1 | Drained \<Rightarrow> 0)"

definition server_work :: "Server \<Rightarrow> nat" where
  "server_work s = phase_work (svPhase s) + watcher_work (svWatcher s)"

lemmas work_defs = server_work_def phase_work_def watcher_work_def

text \<open>A watcher only goes forward, so its states are ordered by what is left to do.\<close>

instantiation watcher :: linorder
begin

definition less_eq_watcher :: "watcher \<Rightarrow> watcher \<Rightarrow> bool" where
  "less_eq_watcher v w \<longleftrightarrow> watcher_work w \<le> watcher_work v"

definition less_watcher :: "watcher \<Rightarrow> watcher \<Rightarrow> bool" where
  "less_watcher v w \<longleftrightarrow> watcher_work w < watcher_work v"

instance
proof
  show "v = w" if "v \<le> w" "w \<le> v" for v w :: watcher
    using that by (cases v; cases w) (simp_all add: less_eq_watcher_def watcher_work_def)
qed (auto simp: less_eq_watcher_def less_watcher_def)

end

lemma shut_iff: "shut s \<longleftrightarrow> ShuttingDown \<le> svWatcher s"
  by (cases "svWatcher s") (simp_all add: shut_def less_eq_watcher_def watcher_work_def)

text \<open>A server returns without an error only when its context is done.\<close>

definition server_ok :: "bool \<Rightarrow> Server \<Rightarrow> bool" where
  "server_ok cancelled s \<longleftrightarrow> (shut s \<longrightarrow> cancelled) \<and> (svPhase s = Returned None \<longrightarrow> cancelled) \<and>
     (svPhase s \<in> {Starting, Binding, Accepting} \<longrightarrow> svWatcher s \<noteq> NoWatcher) \<and>
     (svPhase s = Setup \<longrightarrow> svWatcher s = NoWatcher)"

lemma server_act_ok: "server_act c err a s = Some s' \<Longrightarrow> server_ok c s \<Longrightarrow> server_ok c s'"
  by (cases a) (auto simp: server_ok_def shut_def split: if_splits)

lemma server_act_work: "server_act c err a s = Some s' \<Longrightarrow> server_ok c s \<Longrightarrow> server_work s' < server_work s"
  by (cases a) (auto simp: work_defs server_ok_def split: if_splits)

lemma watcher_forward: "server_act c err a s = Some s' \<Longrightarrow> server_ok c s \<Longrightarrow> svWatcher s \<le> svWatcher s'"
  by (cases a) (auto simp: less_eq_watcher_def watcher_work_def server_ok_def split: if_splits)

text \<open>A server that is shutting down stays so.\<close>

lemma shut_kept: "server_act c err a s = Some s' \<Longrightarrow> server_ok c s \<Longrightarrow> shut s \<Longrightarrow> shut s'"
  using watcher_forward order_trans unfolding shut_iff by blast

lemma server_ok_mono: "server_ok c s \<Longrightarrow> server_ok True s"
  by (simp add: server_ok_def)

text \<open>Once the context is done a server that has not returned can act, even when nothing fails.\<close>

lemma server_progress:
  assumes "server_ok True s" "svPhase s \<in> {Setup, Starting, Binding, Accepting}"
  shows "\<exists>a s'. a \<notin> {BindFails, AcceptFails} \<and> server_act True err a s = Some s'"
proof -
  consider "svPhase s = Setup" | "svPhase s = Starting" | "svPhase s = Binding" | "svPhase s = Accepting" using assms(2) by blast
  then show ?thesis
  proof cases
    case 1 then show ?thesis by (intro exI [of _ Prepare]) simp
  next
    case 2 then show ?thesis by (intro exI [of _ Check]) simp
  next
    case 3 then show ?thesis by (intro exI [of _ Bind]) simp
  next
    case 4
    show ?thesis
    proof (cases "shut s")
      case True then show ?thesis using 4 by (intro exI [of _ Close]) simp
    next
      case False
      then have "svWatcher s = Waiting" using assms(1) 4 by (cases "svWatcher s") (simp_all add: server_ok_def shut_def)
      then show ?thesis by (intro exI [of _ Watch]) simp
    qed
  qed
qed

subsection \<open>The group of \<open>cmd/host/main.go\<close>\<close>

text \<open>
  \<open>errgroup\<close>: the first error a goroutine reports is kept and cancels the context; \<open>Wait\<close> returns
  when all have reported, and then \<open>main\<close> exits, whatever the watchers still do.
\<close>

record Group =
  gpServers :: "Server list"
  gpDone :: bool
  gpErr :: "run_error option"
  gpExit :: "nat option"

record Listeners =
  lsSetup :: "run_error option list"
  lsBindFails :: "nat \<Rightarrow> bool"
  lsAcceptFails :: "nat \<Rightarrow> bool"

datatype group_action = On nat act | Report nat | Interrupt | Wait

fun group_act :: "Listeners \<Rightarrow> group_action \<Rightarrow> Group \<Rightarrow> Group option" where
  "group_act ls (On k a) g =
     (if gpExit g \<noteq> None \<or> length (gpServers g) \<le> k \<or> (a = BindFails \<and> \<not> lsBindFails ls k) \<or> (a = AcceptFails \<and> \<not> lsAcceptFails ls k)
      then None
      else map_option (\<lambda>s. g\<lparr>gpServers := (gpServers g)[k := s]\<rparr>) (server_act (gpDone g) (lsSetup ls ! k) a (gpServers g ! k)))"
| "group_act ls (Report k) g =
     (if gpExit g \<noteq> None \<or> length (gpServers g) \<le> k then None
      else (case svPhase (gpServers g ! k) of
              Returned r \<Rightarrow>
                (let g' = g\<lparr>gpServers := (gpServers g)[k := (gpServers g ! k)\<lparr>svPhase := Gone\<rparr>]\<rparr> in
                 Some (case r of
                         None \<Rightarrow> g'
                       | Some e \<Rightarrow> (if gpErr g = None then g'\<lparr>gpErr := Some e, gpDone := True\<rparr> else g')))
            | _ \<Rightarrow> None))"
| "group_act ls Interrupt g = (if gpExit g \<noteq> None \<or> gpDone g then None else Some (g\<lparr>gpDone := True\<rparr>))"
| "group_act ls Wait g =
     (if gpExit g \<noteq> None \<or> (\<exists>s\<in>set (gpServers g). svPhase s \<noteq> Gone) then None
      else Some (g\<lparr>gpDone := True, gpExit := Some (if gpErr g = None then 0 else 1)\<rparr>))"

definition group_start :: "Listeners \<Rightarrow> Group \<Rightarrow> bool" where
  "group_start ls g \<longleftrightarrow> g = \<lparr>gpServers = map (\<lambda>_. new_server) (lsSetup ls), gpDone = False, gpErr = None, gpExit = None\<rparr>"

definition group_step :: "Listeners \<Rightarrow> Group \<Rightarrow> Group \<Rightarrow> bool" where
  "group_step ls g g' \<longleftrightarrow> (\<exists>a. group_act ls a g = Some g')"

definition group_ok :: "Listeners \<Rightarrow> Group \<Rightarrow> bool" where
  "group_ok ls g \<longleftrightarrow> length (gpServers g) = length (lsSetup ls) \<and> (\<forall>s\<in>set (gpServers g). server_ok (gpDone g) s) \<and>
     (gpErr g \<noteq> None \<longrightarrow> gpDone g) \<and>
     (\<forall>n. gpExit g = Some n \<longrightarrow> n = (if gpErr g = None then 0 else 1) \<and> (\<forall>s\<in>set (gpServers g). svPhase s = Gone))"

definition group_work :: "Group \<Rightarrow> nat" where
  "group_work g = sum_list (map server_work (gpServers g)) + (if gpDone g then 0 else 1) + (if gpExit g = None then 1 else 0)"

lemma sum_work_update:
  "k < length xs \<Longrightarrow> server_work s < server_work (xs ! k) \<Longrightarrow>
    sum_list (map server_work (xs[k := s])) < sum_list (map server_work xs)"
proof (induction xs arbitrary: k)
  case (Cons x xs)
  then show ?case by (cases k) auto
qed simp

lemma server_ok_gone: "server_ok c s \<Longrightarrow> server_ok c (s\<lparr>svPhase := Gone\<rparr>)"
  by (simp add: server_ok_def shut_def)

lemma all_updated: "(\<forall>s\<in>set xs. P s) \<Longrightarrow> P y \<Longrightarrow> \<forall>s\<in>set (xs[k := y]). P s"
  using set_update_subset_insert by fastforce

lemma if_map_some: "(if c then None else map_option f x) = Some y \<longleftrightarrow> \<not> c \<and> (\<exists>s. x = Some s \<and> y = f s)"
  by (cases x) auto

text \<open>A step of one server, and the report of one: the others stay, the work lessens.\<close>

lemma group_server_step:
  assumes "group_ok ls g" "k < length (gpServers g)" "gpExit g = None"
    and "server_ok (gpDone g) s" "server_work s < server_work (gpServers g ! k)"
  shows "group_ok ls (g\<lparr>gpServers := (gpServers g)[k := s]\<rparr>)"
    and "group_work (g\<lparr>gpServers := (gpServers g)[k := s]\<rparr>) < group_work g"
proof -
  show "group_ok ls (g\<lparr>gpServers := (gpServers g)[k := s]\<rparr>)"
    using assms(1,3) all_updated [of "gpServers g" "server_ok (gpDone g)", OF _ assms(4)] by (simp add: group_ok_def)
  show "group_work (g\<lparr>gpServers := (gpServers g)[k := s]\<rparr>) < group_work g"
    using sum_work_update [OF assms(2,5)] by (simp add: group_work_def)
qed

lemma group_cancel:
  assumes "group_ok ls g" "gpExit g = None" "e = gpErr g \<or> gpErr g = None"
  shows "group_ok ls (g\<lparr>gpErr := e, gpDone := True\<rparr>)" "group_work (g\<lparr>gpErr := e, gpDone := True\<rparr>) \<le> group_work g"
  using assms server_ok_mono by (auto simp: group_ok_def group_work_def)

lemma group_act_keeps:
  assumes "group_act ls a g = Some g'" "group_ok ls g"
  shows "group_ok ls g' \<and> group_work g' < group_work g"
proof (cases a)
  case (On k b)
  obtain s where s: "k < length (gpServers g)" "gpExit g = None"
    "server_act (gpDone g) (lsSetup ls ! k) b (gpServers g ! k) = Some s" "g' = g\<lparr>gpServers := (gpServers g)[k := s]\<rparr>"
    using assms(1) unfolding On group_act.simps if_map_some de_Morgan_disj not_le by blast
  have ok: "server_ok (gpDone g) (gpServers g ! k)" using assms(2) s(1) by (simp add: group_ok_def)
  show ?thesis
    using group_server_step [OF assms(2) s(1,2) server_act_ok [OF s(3) ok] server_act_work [OF s(3) ok]] s(4) by simp
next
  case (Report k)
  then have k: "k < length (gpServers g)" "gpExit g = None" using assms(1) by (auto split: if_splits)
  then obtain r where r: "svPhase (gpServers g ! k) = Returned r" using Report assms(1) by (auto split: if_splits phase.splits)
  let ?s = "(gpServers g ! k)\<lparr>svPhase := Gone\<rparr>" and ?g = "g\<lparr>gpServers := (gpServers g)[k := (gpServers g ! k)\<lparr>svPhase := Gone\<rparr>]\<rparr>"
  have ok: "server_ok (gpDone g) ?s" using assms(2) k(1) server_ok_gone by (simp add: group_ok_def)
  have "server_work ?s < server_work (gpServers g ! k)" by (simp add: work_defs r)
  note st = group_server_step [OF assms(2) k ok this]
  have e: "gpExit ?g = None" using k(2) by simp
  have "g' = ?g \<or> (gpErr ?g = None \<and> (\<exists>e. g' = ?g\<lparr>gpErr := e, gpDone := True\<rparr>))"
    using assms(1) k by (cases r; cases "gpErr g") (auto simp: Report r Let_def)
  then show ?thesis
  proof
    assume "g' = ?g" with st show ?thesis by simp
  next
    assume "gpErr ?g = None \<and> (\<exists>e. g' = ?g\<lparr>gpErr := e, gpDone := True\<rparr>)"
    then obtain e' where g': "gpErr ?g = None" "g' = ?g\<lparr>gpErr := e', gpDone := True\<rparr>" by blast
    have "e' = gpErr ?g \<or> gpErr ?g = None" using g'(1) by simp
    note c = group_cancel [OF st(1) e this]
    show ?thesis using c st(2) unfolding g'(2) by (meson le_less_trans)
  qed
next
  case Interrupt
  then have g: "gpExit g = None" "\<not> gpDone g" "g' = g\<lparr>gpDone := True\<rparr>" using assms(1) by (auto split: if_splits)
  have "g' = g\<lparr>gpErr := gpErr g, gpDone := True\<rparr>" using g(3) by simp
  moreover have "group_work g' < group_work g" using g by (simp add: group_work_def)
  ultimately show ?thesis using group_cancel(1) [OF assms(2) g(1), of "gpErr g"] by simp
next
  case Wait
  then have g: "gpExit g = None" "\<forall>s\<in>set (gpServers g). svPhase s = Gone"
    "g' = g\<lparr>gpDone := True, gpExit := Some (if gpErr g = None then 0 else 1)\<rparr>" using assms(1) by (auto split: if_splits)
  have "\<forall>s\<in>set (gpServers g). server_ok True s" using assms(2) server_ok_mono unfolding group_ok_def by blast
  then have "group_ok ls g'" using assms(2) g by (simp add: group_ok_def)
  moreover have "group_work g' < group_work g" using g by (simp add: group_work_def)
  ultimately show ?thesis by simp
qed

subsection \<open>Stopping\<close>

lemma group_start_ok: "group_start ls g \<Longrightarrow> group_ok ls g"
  by (auto simp: group_start_def group_ok_def server_ok_def new_server_def shut_def)

lemma group_step_keeps: "group_ok ls g \<Longrightarrow> group_step ls g g' \<Longrightarrow> group_ok ls g' \<and> group_work g' < group_work g"
  using group_act_keeps unfolding group_step_def by blast

definition stopping :: "Group \<Rightarrow> bool" where
  "stopping g \<longleftrightarrow> gpDone g \<and> gpExit g = None"

definition exited :: "Group \<Rightarrow> bool" where
  "exited g \<longleftrightarrow> gpExit g \<noteq> None"

lemma done_kept:
  assumes "group_act ls a g = Some g'" "gpDone g"
  shows "gpDone g'"
proof (cases a)
  case (On k b)
  then show ?thesis using assms unfolding On group_act.simps if_map_some by auto
next
  case (Report k)
  then show ?thesis using assms by (auto simp: Let_def split: if_splits phase.splits option.splits)
qed (use assms in \<open>auto split: if_splits\<close>)

lemma group_progress:
  assumes "group_ok ls g" "stopping g"
  shows "\<exists>g'. group_step ls g g'"
proof (cases "\<forall>s\<in>set (gpServers g). svPhase s = Gone")
  case True
  then have "group_act ls Wait g \<noteq> None" using assms(2) by (simp add: stopping_def)
  then show ?thesis unfolding group_step_def by blast
next
  case False
  then obtain k where k: "k < length (gpServers g)" "svPhase (gpServers g ! k) \<noteq> Gone" by (metis in_set_conv_nth)
  have ok: "server_ok True (gpServers g ! k)" using assms k(1) by (simp add: group_ok_def stopping_def)
  have x: "gpExit g = None" "gpDone g = True" using assms(2) by (simp_all add: stopping_def)
  show ?thesis
  proof (cases "svPhase (gpServers g ! k) \<in> {Setup, Starting, Binding, Accepting}")
    case True
    then obtain a s' where a: "a \<noteq> BindFails" "a \<noteq> AcceptFails"
      "server_act True (lsSetup ls ! k) a (gpServers g ! k) = Some s'" using server_progress [OF ok] by blast
    then have "group_act ls (On k a) g \<noteq> None" using k(1) x by (simp only: group_act.simps) simp
    then show ?thesis unfolding group_step_def by blast
  next
    case False
    then obtain r where "svPhase (gpServers g ! k) = Returned r" using k(2) by (cases "svPhase (gpServers g ! k)") auto
    then have "group_act ls (Report k) g \<noteq> None" using k(1) x by (simp add: Let_def)
    then show ?thesis unfolding group_step_def by blast
  qed
qed

interpretation stopping: winding_system "group_start ls" "group_step ls" "group_ok ls" stopping exited group_work for ls
proof
  fix g g' assume g: "group_ok ls g" "stopping g"
  show "\<exists>g'. group_step ls g g'" by (rule group_progress [OF g])
  assume "group_step ls g g'"
  then show "group_work g' < group_work g \<and> (stopping g' \<or> exited g')"
    using group_step_keeps [OF g(1)] done_kept g(2) by (auto simp: group_step_def stopping_def exited_def)
qed (use group_start_ok group_step_keeps in blast)+

text \<open>
  C38. A host that is interrupted, or one of whose servers fails, stops: whatever fails then and however
  the goroutines of the servers interleave, every run leads to the exit of the program.
\<close>

theorem host_stops:
  assumes "reach (group_start ls) (group_step ls) g" "gpDone g \<or> gpErr g \<noteq> None" "gpExit g = None"
  shows "inevitably (group_step ls) exited g"
proof -
  have "group_ok ls g" by (rule stopping.reachable_inv [OF assms(1)])
  then have "stopping g" using assms(2,3) by (auto simp: group_ok_def stopping_def)
  then show ?thesis by (rule stopping.reachable_inevitable [OF assms(1)])
qed


subsection \<open>Concrete runs\<close>

fun group_run :: "Listeners \<Rightarrow> group_action list \<Rightarrow> Group \<Rightarrow> Group option" where
  "group_run ls [] g = Some g"
| "group_run ls (a # as) g = (case group_act ls a g of None \<Rightarrow> None | Some g' \<Rightarrow> group_run ls as g')"

lemma group_run_reach:
  "group_run ls as g = Some g' \<Longrightarrow> reach (group_start ls) (group_step ls) g \<Longrightarrow> reach (group_start ls) (group_step ls) g'"
proof (induction as arbitrary: g)
  case (Cons a as)
  then obtain g1 where "group_act ls a g = Some g1" "group_run ls as g1 = Some g'" by (auto split: option.splits)
  then show ?case using Cons.IH Cons.prems(2) reach_step [OF Cons.prems(2)] by (auto simp: group_step_def)
qed simp

definition three_listeners :: Listeners where
  "three_listeners = \<lparr>lsSetup = [None, None, None], lsBindFails = (\<lambda>k. False), lsAcceptFails = (\<lambda>k. False)\<rparr>"

definition three_servers :: Group where
  "three_servers = \<lparr>gpServers = [new_server, new_server, new_server], gpDone = False, gpErr = None, gpExit = None\<rparr>"

definition start_all :: "group_action list" where
  "start_all = [On 0 Prepare, On 0 Check, On 0 Bind, On 1 Prepare, On 1 Check, On 1 Bind, On 2 Prepare, On 2 Check, On 2 Bind]"

definition stop_all :: "group_action list" where
  "stop_all = [On 0 Watch, On 1 Watch, On 2 Watch, On 0 Close, On 1 Close, On 2 Close, Report 0, Report 1, Report 2, Wait]"

lemma three_reach:
  assumes "group_run three_listeners as three_servers = Some g"
  shows "reach (group_start three_listeners) (group_step three_listeners) g"
  by (rule group_run_reach [OF assms], rule reach_init) (simp add: group_start_def three_listeners_def three_servers_def)

definition interrupted :: Group where
  "interrupted = \<lparr>gpServers = replicate 3 \<lparr>svPhase = Accepting, svWatcher = Waiting\<rparr>, gpDone = True, gpErr = None, gpExit = None\<rparr>"

definition stopped :: Group where
  "stopped = \<lparr>gpServers = replicate 3 \<lparr>svPhase = Gone, svWatcher = ShuttingDown\<rparr>, gpDone = True, gpErr = None, gpExit = Some 0\<rparr>"

lemma runs_to:
  "group_run three_listeners (start_all @ [Interrupt]) three_servers = Some interrupted"
  "group_run three_listeners (start_all @ [Interrupt] @ stop_all) three_servers = Some stopped"
  by code_simp+

text \<open>
  The program can exit while every \<open>Shutdown\<close> is still waiting for its requests, since nothing waits
  for the goroutine that called it: the five seconds it is given are not granted.
\<close>

lemma exit_before_drained:
  "\<exists>g. reach (group_start three_listeners) (group_step three_listeners) g \<and> gpExit g = Some 0 \<and>
     list_all (\<lambda>s. svWatcher s = ShuttingDown) (gpServers g)"
  by (intro exI conjI, rule three_reach [OF runs_to(2)]) (simp_all add: stopped_def eval_nat_numeral)

lemma host_stops_witness: "inevitably (group_step three_listeners) exited interrupted"
  by (rule host_stops [OF three_reach [OF runs_to(1)]]) (simp_all add: interrupted_def)


end
