(* ===== verification/Running.thy ===== *)
theory Running
  imports HostSystem ClientMain Servers
begin

text \<open>
  What the servers of both programs are set up with, and \<open>Client.Run\<close> (\<open>internal/client/client.go\<close>),
  which waits for the loops of all tunnels and for the inspector.
\<close>

subsection \<open>The listeners\<close>

definition tunnel_setup :: "TunnelHostSettings \<Rightarrow> ('k, 'c) Crypto \<Rightarrow> Disk \<Rightarrow> (run_error + string \<times> 'c option) \<times> Disk" where
  "tunnel_setup s cr d =
     (let addr = listenAddr (thHostName s) (thPort s) in
      if case thSsl s of Some ssl \<Rightarrow> sslEnabledFlag ssl | None \<Rightarrow> False
      then (case GetOrCreate cr ''cert.pem'' ''key.pem'' d of
              (Inl e, d') \<Rightarrow> (Inl (CertificateError e), d')
            | (Inr cert, d') \<Rightarrow> (Inr (addr, Some cert), d'))
      else (Inr (addr, None), d))"

definition http_addr :: "HttpHostSettings \<Rightarrow> string" where
  "http_addr s = listenAddr (hsHostName s) (hsPort s)"

definition portal_addr :: "Portal \<Rightarrow> string" where
  "portal_addr p = '':'' @ itoa (pPort p)"

definition inspector_addr :: "Config \<Rightarrow> string" where
  "inspector_addr c = ''localhost:'' @ itoa (icPort (cfInspector c))"

text \<open>The portal and the HTTP server have nothing to set up that can fail.\<close>

definition host_listeners :: "HostConfig \<Rightarrow> ('k, 'c) Crypto \<Rightarrow> Disk \<Rightarrow> (nat \<Rightarrow> bool) \<Rightarrow> (nat \<Rightarrow> bool) \<Rightarrow> Listeners" where
  "host_listeners cfg cr d binds accepts =
     \<lparr>lsSetup = [case fst (tunnel_setup (hfTunnelHost cfg) cr d) of Inl e \<Rightarrow> Some e | Inr _ \<Rightarrow> None, None, None],
      lsBindFails = binds, lsAcceptFails = accepts\<rparr>"

text \<open>The \<open>Run\<close> of each server, by the actions of its goroutines.\<close>

definition tunnel_run :: "TunnelHostSettings \<Rightarrow> ('k, 'c) Crypto \<Rightarrow> Disk \<Rightarrow> bool \<Rightarrow> act \<Rightarrow> Server \<Rightarrow> Server option" where
  "tunnel_run s cr d cancelled a sv =
     server_act cancelled (case fst (tunnel_setup s cr d) of Inl e \<Rightarrow> Some e | Inr _ \<Rightarrow> None) a sv"

definition http_run :: "bool \<Rightarrow> act \<Rightarrow> Server \<Rightarrow> Server option" where
  "http_run cancelled a sv = server_act cancelled None a sv"

definition portal_run :: "bool \<Rightarrow> act \<Rightarrow> Server \<Rightarrow> Server option" where
  "portal_run cancelled a sv = server_act cancelled None a sv"

definition runInspector :: "bool \<Rightarrow> act \<Rightarrow> Server \<Rightarrow> Server option" where
  "runInspector cancelled a sv = server_act cancelled None a sv"

text \<open>The servers of the group are these three.\<close>

lemma group_servers:
  "server_act c (lsSetup (host_listeners cfg cr d b f) ! 0) a sv = tunnel_run (hfTunnelHost cfg) cr d c a sv"
  "server_act c (lsSetup (host_listeners cfg cr d b f) ! 1) a sv = http_run c a sv"
  "server_act c (lsSetup (host_listeners cfg cr d b f) ! 2) a sv = portal_run c a sv"
  by (simp_all add: host_listeners_def tunnel_run_def http_run_def portal_run_def)

text \<open>A tunnel host without a certificate cancels the others, and its error is the one that is kept.\<close>

lemma certificate_error_stops:
  assumes "tunnel_setup (hfTunnelHost cfg) cr d = (Inl e, d')" "group_act (host_listeners cfg cr d b f) (On 0 Prepare) g = Some g1"
    and "group_act (host_listeners cfg cr d b f) (Report 0) g1 = Some g2" "gpErr g = None"
  shows "gpErr g2 = Some e \<and> gpDone g2"
proof -
  have "svPhase (gpServers g1 ! 0) = Returned (Some e)" "gpErr g1 = None"
    using assms(1,2,4) unfolding group_act.simps if_map_some by (auto simp: host_listeners_def split: if_splits)
  then show ?thesis using assms(3) by (auto simp: Let_def split: if_splits)
qed

text \<open>\<open>acceptInvalidCertificates\<close> of the host is read from its configuration and never used.\<close>

lemma accept_invalid_unused:
  "tunnel_setup (s\<lparr>thSsl := Some \<lparr>sslEnabledFlag = b, sslAcceptInvalid = x\<rparr>\<rparr>) cr d =
   tunnel_setup (s\<lparr>thSsl := Some \<lparr>sslEnabledFlag = b, sslAcceptInvalid = y\<rparr>\<rparr>) cr d"
  by (simp add: tunnel_setup_def)

subsection \<open>\<open>Client.Run\<close>\<close>

text \<open>
  \<open>crTunnels\<close> tells which loops have returned. The loop of a tunnel returns when the context is done,
  or before when it gives up connecting; an error of the inspector is only logged.
\<close>

record ClientRun =
  crTunnels :: "bool list"
  crInspector :: "Server option"
  crDone :: bool
  crReturned :: bool

definition client_start :: "Client \<Rightarrow> ClientRun \<Rightarrow> bool" where
  "client_start c r \<longleftrightarrow> r = \<lparr>crTunnels = map (\<lambda>_. False) (clTunnels c),
     crInspector = (if icEnabled (cfInspector (clCfg c)) then Some new_server else None), crDone = False, crReturned = False\<rparr>"

definition inspector_returned :: "ClientRun \<Rightarrow> bool" where
  "inspector_returned r \<longleftrightarrow> (case crInspector r of None \<Rightarrow> True | Some s \<Rightarrow> (case svPhase s of Returned _ \<Rightarrow> True | _ \<Rightarrow> False))"

inductive client_step :: "(nat \<Rightarrow> bool) \<Rightarrow> act set \<Rightarrow> ClientRun \<Rightarrow> ClientRun \<Rightarrow> bool" for gives_up failing where
  tunnel_returns: "k < length (crTunnels r) \<Longrightarrow> \<not> crTunnels r ! k \<Longrightarrow> crDone r \<or> gives_up k \<Longrightarrow> \<not> crReturned r \<Longrightarrow>
    client_step gives_up failing r (r\<lparr>crTunnels := (crTunnels r)[k := True]\<rparr>)"
| inspector_acts: "crInspector r = Some s \<Longrightarrow> runInspector (crDone r) a s = Some s' \<Longrightarrow> \<not> crReturned r \<Longrightarrow>
    a \<notin> {BindFails, AcceptFails} \<or> a \<in> failing \<Longrightarrow> client_step gives_up failing r (r\<lparr>crInspector := Some s'\<rparr>)"
| interrupted: "\<not> crDone r \<Longrightarrow> \<not> crReturned r \<Longrightarrow> client_step gives_up failing r (r\<lparr>crDone := True\<rparr>)"
| all_done: "list_all (\<lambda>b. b) (crTunnels r) \<Longrightarrow> inspector_returned r \<Longrightarrow> \<not> crReturned r \<Longrightarrow>
    client_step gives_up failing r (r\<lparr>crReturned := True\<rparr>)"

definition client_ok :: "ClientRun \<Rightarrow> bool" where
  "client_ok r \<longleftrightarrow> (case crInspector r of None \<Rightarrow> True | Some s \<Rightarrow> server_ok (crDone r) s \<and> svPhase s \<noteq> Gone)"

definition client_work :: "ClientRun \<Rightarrow> nat" where
  "client_work r = length (filter (\<lambda>b. \<not> b) (crTunnels r)) + (case crInspector r of None \<Rightarrow> 0 | Some s \<Rightarrow> server_work s) +
     (if crDone r then 0 else 1) + (if crReturned r then 0 else 1)"

lemma server_act_not_gone: "server_act c e a s = Some s' \<Longrightarrow> svPhase s \<noteq> Gone \<Longrightarrow> svPhase s' \<noteq> Gone"
  by (cases a) (auto split: if_splits)

lemma tunnel_work: "k < length xs \<Longrightarrow> \<not> xs ! k \<Longrightarrow>
    length (filter (\<lambda>b. \<not> b) (xs[k := True])) < length (filter (\<lambda>b. \<not> b) xs)"
proof (induction xs arbitrary: k)
  case (Cons x xs)
  then show ?case by (cases k) auto
qed simp

lemma client_step_keeps:
  assumes "client_step gives_up failing r r'" "client_ok r"
  shows "client_ok r' \<and> client_work r' < client_work r \<and> (crDone r \<longrightarrow> crDone r')"
  using assms
proof (cases rule: client_step.cases)
  case (tunnel_returns k)
  then show ?thesis using assms(2) tunnel_work [of k "crTunnels r"]
    by (simp add: client_ok_def client_work_def split: option.splits)
next
  case (inspector_acts s a s')
  have sv: "server_act (crDone r) None a s = Some s'" using inspector_acts(3) by (simp add: runInspector_def)
  have s: "server_ok (crDone r) s" "svPhase s \<noteq> Gone" using assms(2) inspector_acts(2) by (simp_all add: client_ok_def)
  show ?thesis
    using server_act_ok [OF sv s(1)] server_act_not_gone [OF sv s(2)]
      server_act_work [OF sv s(1)] inspector_acts(1,2) by (simp add: client_ok_def client_work_def)
next
  case interrupted
  then show ?thesis using assms(2) server_ok_mono by (auto simp: client_ok_def client_work_def split: option.splits)
next
  case all_done
  then show ?thesis using assms(2) by (simp add: client_ok_def client_work_def split: option.splits)
qed

lemma client_progress:
  assumes "client_ok r" "crDone r" "\<not> crReturned r"
  shows "\<exists>r'. client_step gives_up failing r r'"
proof (cases "list_all (\<lambda>b. b) (crTunnels r)")
  case False
  then obtain k where "k < length (crTunnels r)" "\<not> crTunnels r ! k" by (auto simp: list_all_length)
  then show ?thesis using tunnel_returns assms(2,3) by blast
next
  case True
  show ?thesis
  proof (cases "inspector_returned r")
    case False
    then obtain s where s: "crInspector r = Some s" "\<not> (\<exists>x. svPhase s = Returned x)"
      by (auto simp: inspector_returned_def split: option.splits phase.splits)
    then have "server_ok True s" "svPhase s \<in> {Setup, Starting, Binding, Accepting}"
      using assms(1,2) by (simp_all add: client_ok_def) (cases "svPhase s"; simp)
    then obtain a s' where "a \<notin> {BindFails, AcceptFails}" "server_act True None a s = Some s'" using server_progress by blast
    then show ?thesis using inspector_acts [OF s(1), of a s'] assms(2,3) by (auto simp: runInspector_def)
  qed (use all_done True assms(3) in blast)
qed

interpretation client_running: winding_system "client_start c" "client_step gives_up failing" client_ok
  "\<lambda>r. crDone r \<and> \<not> crReturned r" crReturned client_work for c gives_up failing
proof
  fix r r' assume r: "client_ok r" "crDone r \<and> \<not> crReturned r"
  show "\<exists>r'. client_step gives_up failing r r'" using client_progress r by blast
  assume "client_step gives_up failing r r'"
  then show "client_work r' < client_work r \<and> (crDone r' \<and> \<not> crReturned r' \<or> crReturned r')"
    using client_step_keeps r by blast
qed (auto simp: client_start_def client_ok_def new_server_def server_ok_def shut_def dest: client_step_keeps)

text \<open>An interrupted client returns, whatever becomes of its inspector.\<close>

lemma client_stops:
  "reach (client_start c) (client_step gives_up failing) r \<Longrightarrow> crDone r \<Longrightarrow> \<not> crReturned r \<Longrightarrow>
    inevitably (client_step gives_up failing) crReturned r"
  by (rule client_running.reachable_inevitable) simp_all

end
