(* ===== verification/Logx.thy ===== *)
theory Logx
  imports Prelude
begin

text \<open>
  The log handler (\<open>internal/logx/logx.go\<close>): levels, the text of a line, and the attributes a logger
  carries. A level is the number \<open>slog\<close> gives it, a value its text, the time that of the local
  clock; the writer is the text written so far, and writing it may fail.
\<close>

definition LevelDebug :: int where "LevelDebug = -4"
definition LevelInfo :: int where "LevelInfo = 0"
definition LevelWarn :: int where "LevelWarn = 4"
definition LevelError :: int where "LevelError = 8"

lemmas level_defs = LevelDebug_def LevelInfo_def LevelWarn_def LevelError_def

type_synonym attr = "string \<times> string"

record log_handler =
  lhLevel :: int
  lhAttrs :: "attr list"

record log_record =
  lrHour :: nat
  lrMinute :: nat
  lrSecond :: nat
  lrLevel :: int
  lrMessage :: string
  lrAttrs :: "attr list"

definition color :: "string \<Rightarrow> string" where
  "color code = CHR 0x1B # ''['' @ code @ ''m''"

definition colorReset :: string where "colorReset = color ''0''"
definition colorRed :: string where "colorRed = color ''31''"
definition colorGreen :: string where "colorGreen = color ''32''"
definition colorYellow :: string where "colorYellow = color ''33''"
definition colorCyan :: string where "colorCyan = color ''36''"

definition NewHandler :: "int \<Rightarrow> log_handler" where
  "NewHandler level = \<lparr>lhLevel = level, lhAttrs = []\<rparr>"

definition Enabled :: "log_handler \<Rightarrow> int \<Rightarrow> bool" where
  "Enabled h l \<longleftrightarrow> l \<ge> lhLevel h"

definition levelLabel :: "int \<Rightarrow> string \<times> string" where
  "levelLabel l =
     (if l \<le> LevelDebug then (''debug: '', colorCyan)
      else if l < LevelWarn then (''info: '', colorGreen)
      else if l < LevelError then (''warn: '', colorYellow)
      else (''error: '', colorRed))"

definition ParseLevel :: "string \<Rightarrow> int" where
  "ParseLevel s =
     (let s = to_lower s in
      if s = ''trace'' \<or> s = ''debug'' then LevelDebug
      else if s = ''warn'' \<or> s = ''warning'' then LevelWarn
      else if s = ''error'' \<or> s = ''critical'' then LevelError
      else LevelInfo)"

definition two_digits :: "nat \<Rightarrow> string" where
  "two_digits n = [digit (n div 10), digit (n mod 10)]"

definition writeAttr :: "string \<Rightarrow> attr \<Rightarrow> string" where
  "writeAttr sb a = sb @ '' '' @ fst a @ ''='' @ snd a"

definition log_line :: "log_handler \<Rightarrow> log_record \<Rightarrow> string" where
  "log_line h r =
     (let (label, c) = levelLabel (lrLevel r);
          sb = two_digits (lrHour r) @ '':'' @ two_digits (lrMinute r) @ '':'' @ two_digits (lrSecond r) @ '' '';
          sb = (if c \<noteq> [] then sb @ c @ label @ colorReset else sb @ label) @ lrMessage r;
          sb = foldl writeAttr sb (lhAttrs h)
      in foldl writeAttr sb (lrAttrs r) @ [CHR 0x0A])"

definition Handle :: "(string \<Rightarrow> bool) \<Rightarrow> log_handler \<Rightarrow> log_record \<Rightarrow> string \<Rightarrow> bool \<times> string" where
  "Handle writes h r out = (if writes (log_line h r) then (True, out @ log_line h r) else (False, out))"

definition WithAttrs :: "attr list \<Rightarrow> log_handler \<Rightarrow> log_handler" where
  "WithAttrs attrs h = h\<lparr>lhAttrs := lhAttrs h @ attrs\<rparr>"

definition WithGroup :: "string \<Rightarrow> log_handler \<Rightarrow> log_handler" where
  "WithGroup name h = h"

subsection \<open>Levels\<close>

text \<open>The names of the levels are read in any case, and each handles its own records and worse.\<close>

lemma ParseLevel_lower: "ParseLevel (to_lower s) = ParseLevel s"
  by (simp add: ParseLevel_def)

lemma ParseLevel_levels: "ParseLevel s \<in> {LevelDebug, LevelInfo, LevelWarn, LevelError}"
  by (simp add: ParseLevel_def Let_def)

lemma Enabled_mono: "Enabled h l \<Longrightarrow> l \<le> l' \<Longrightarrow> Enabled h l'"
  by (simp add: Enabled_def)

lemma errors_enabled: "Enabled (NewHandler (ParseLevel s)) LevelError"
  by (auto simp: Enabled_def NewHandler_def ParseLevel_def level_defs Let_def)

subsection \<open>Lines\<close>

lemma fold_attrs: "foldl writeAttr sb as = sb @ concat (map (\<lambda>a. '' '' @ fst a @ ''='' @ snd a) as)"
  by (induction as arbitrary: sb) (simp_all add: writeAttr_def)

lemma label_color: "snd (levelLabel l) \<noteq> []"
  by (simp add: levelLabel_def colorRed_def colorGreen_def colorYellow_def colorCyan_def color_def)

lemma log_line_alt:
  "log_line h r = two_digits (lrHour r) @ '':'' @ two_digits (lrMinute r) @ '':'' @ two_digits (lrSecond r) @ '' '' @
     snd (levelLabel (lrLevel r)) @ fst (levelLabel (lrLevel r)) @ colorReset @ lrMessage r @
     concat (map (\<lambda>a. '' '' @ fst a @ ''='' @ snd a) (lhAttrs h @ lrAttrs r)) @ [CHR 0x0A]"
  using label_color [of "lrLevel r"] by (cases "levelLabel (lrLevel r)") (simp add: log_line_def fold_attrs Let_def)

text \<open>A logger's attributes come before those of the record, the older first.\<close>

lemma WithAttrs_line: "log_line (WithAttrs as h) r = log_line h (r\<lparr>lrAttrs := as @ lrAttrs r\<rparr>)"
  by (simp add: log_line_alt WithAttrs_def)

lemma WithAttrs_twice: "WithAttrs bs (WithAttrs as h) = WithAttrs (as @ bs) h"
  by (simp add: WithAttrs_def)

text \<open>One record is one line, when no text in it has a newline.\<close>

lemma digit_newline: "n < 10 \<Longrightarrow> digit n \<noteq> CHR 0x0A"
proof -
  assume "n < 10"
  then have "n \<in> set [0..<10]" by simp
  moreover have "list_all (\<lambda>n. digit n \<noteq> CHR 0x0A) [0..<10]" by code_simp
  ultimately show ?thesis unfolding list_all_iff by blast
qed

lemma label_newline: "CHR 0x0A \<notin> set (fst (levelLabel l)) \<and> CHR 0x0A \<notin> set (snd (levelLabel l)) \<and> CHR 0x0A \<notin> set colorReset"
  by (simp add: levelLabel_def colorReset_def colorRed_def colorGreen_def colorYellow_def colorCyan_def color_def)

lemma one_line:
  assumes "lrHour r < 24" "lrMinute r < 60" "lrSecond r < 60" "CHR 0x0A \<notin> set (lrMessage r)"
    and "\<forall>(k, v)\<in>set (lhAttrs h @ lrAttrs r). CHR 0x0A \<notin> set k \<and> CHR 0x0A \<notin> set v"
  shows "\<exists>text. log_line h r = text @ [CHR 0x0A] \<and> CHR 0x0A \<notin> set text"
proof -
  have d: "CHR 0x0A \<notin> set (two_digits n)" if "n < 60" for n
  proof -
    have "digit (n div 10) \<noteq> CHR 0x0A" "digit (n mod 10) \<noteq> CHR 0x0A" by (rule digit_newline; use that in simp)+
    then show ?thesis by (simp add: two_digits_def eq_commute)
  qed
  have a: "\<forall>a\<in>set (lhAttrs h @ lrAttrs r). CHR 0x0A \<notin> set (fst a) \<and> CHR 0x0A \<notin> set (snd a)"
    using assms(5) by auto
  have "CHR 0x0A \<notin> set (butlast (log_line h r))"
    using label_newline [of "lrLevel r"] assms(4) a d [of "lrHour r"] d [OF assms(2)] d [OF assms(3)] assms(1)
    unfolding log_line_alt by (auto simp: butlast_append)
  moreover have "log_line h r = butlast (log_line h r) @ [CHR 0x0A]" by (simp add: log_line_alt butlast_append)
  ultimately show ?thesis by blast
qed

text \<open>Values are not quoted, so that one value can look like two attributes.\<close>

lemma value_ambiguous:
  "log_line h (r\<lparr>lrAttrs := [(''subdomain'', ''a user=root'')]\<rparr>) =
   log_line h (r\<lparr>lrAttrs := [(''subdomain'', ''a''), (''user'', ''root'')]\<rparr>)"
  by (simp add: log_line_alt)

end
