(* ===== verification/Spec2Isabelle.thy ===== *)
theory Spec2Isabelle
  imports TunnelSteps EndToEnd SignIn Running Logx
begin

text \<open>
  Ntunl tunnels HTTP traffic. A host program (\<open>cmd/host\<close>) accepts WebSocket connections of
  authenticated clients, gives each a subdomain, and forwards the public HTTP requests for that
  subdomain over the connection; a client program (\<open>cmd/client\<close>) replays them against a
  local service and sends the responses back. A portal manages users, API tokens and sessions.

  The parts and how they meet.

  \<^item> The host runs three servers over one SQLite store: the tunnel listener, the public HTTP
    listener and the portal. The tunnel listener and the HTTP listener share the map of live
    clients and the map of pending requests; the portal sees live clients through the interface
    \<open>live.go\<close> and shares users, tokens, sessions and the history with the tunnel listener.
  \<^item> The client holds one connection for each configured tunnel, and an inspector page over
    the exchanges the connections retain. \<open>Login\<close> fetches a token from the portal
    and stores it in the credentials file, where \<open>New\<close> finds it.
  \<^item> The two programs meet in the messages of \<open>internal/protocol\<close> and in the login
    API of the portal.

  Theories, in the order they build on each other (paths are under \<open>src/\<close>).

  \<^item> \<open>Prelude\<close>: Go strings, maps and their iteration order, the collections of simplification
    rules, and two locales of transition systems. \<open>invariant_system\<close> takes an initial state, a
    relation and an invariant the relation keeps, and gives the invariant in every reachable state;
    \<open>winding_system\<close> extends it by a measure that every step of a closing phase lowers, and gives
    that every interleaving reaches the end (\<open>inevitably\<close>).
  \<^item> \<open>Base64\<close>, \<open>Json\<close>, \<open>Indent\<close>: what the programs use of \<open>encoding/base64\<close> and
    \<open>encoding/json\<close>, on bytes. \<open>Protocol\<close>: \<open>internal/protocol\<close>, the commands and their
    payloads; the locales \<open>codec\<close> and \<open>payload_codec\<close> state what a pair of encoder and decoder
    promises, and are interpreted on the command and on its three payloads.
  \<^item> \<open>Store\<close>: \<open>internal/store\<close>. A \<open>db\<close> has a list of rows for each table of the schema; every
    operation is its SQL statement with the constraints as errors and a schedule of outside faults. The
    locale \<open>statement\<close> says what one statement keeps, interpreted on each operation.
  \<^item> \<open>Http\<close>, \<open>Address\<close>, \<open>Flags\<close>: what is used of \<open>net/http\<close>, \<open>net/url\<close>, \<open>net\<close> and \<open>flag\<close>.
  \<^item> \<open>Auth\<close>: \<open>internal/auth\<close>, tokens, sessions and passwords. A route guard is the locale
    \<open>guard\<close>, one for administrators extends it; \<open>RequireAuth\<close> and \<open>RequireAdmin\<close> interpret them.
  \<^item> \<open>TunnelHost\<close>: \<open>internal/host/tunnel.go\<close> run by one goroutine after the other, with the live
    view as the locale \<open>live_tunnels\<close>. \<open>TunnelSteps\<close>: the same file as a concurrent system, whose step
    is one critical section, channel operation or library call of one goroutine; its definitions are
    composed of those of \<open>TunnelHost\<close>.
  \<^item> \<open>HttpServer\<close>: \<open>internal/host/httpserver.go\<close>. \<open>Portal\<close>: \<open>internal/host/portal\<close>, the routes, the
    handlers and the data of each page.
  \<^item> \<open>Compress\<close>, \<open>ClientHandler\<close>, \<open>TunnelClient\<close>: \<open>internal/compress\<close>, and \<open>handler.go\<close> and
    \<open>tunnel.go\<close> of \<open>internal/client\<close>; \<open>serve\<close> with its goroutines is a step relation.
  \<^item> \<open>EndToEnd\<close>: a visit through both programs.
  \<^item> \<open>Credentials\<close>, \<open>Client\<close>, \<open>SignIn\<close>: \<open>credentials.go\<close>, \<open>login.go\<close>, \<open>client.go\<close> and
    \<open>inspector.go\<close>, and the sign-in through both programs. The set of stored tokens is a \<open>keyed_store\<close>,
    looked up by the key of an address.
  \<^item> \<open>Config\<close>, \<open>ClientMain\<close>: \<open>internal/config\<close> and \<open>cmd/client\<close>. A field of a configuration is the
    locale \<open>struct_field\<close>.
  \<^item> \<open>HostMain\<close>, \<open>HostSystem\<close>: \<open>cmd/host\<close>, \<open>bootstrap.go\<close> and \<open>config.go\<close> of \<open>internal/host\<close>, and
    the running host as one system of visits, connections and portal requests.
  \<^item> \<open>Certs\<close>, \<open>Servers\<close>, \<open>Running\<close>: \<open>internal/certs\<close>, and the \<open>Run\<close> functions of the servers of both
    programs, their group in \<open>cmd/host\<close> and \<open>Client.Run\<close>, as systems of goroutines.
  \<^item> \<open>Logx\<close>: \<open>internal/logx\<close>, levels, lines and the attributes a logger carries.

  What is shown.

  \<^item> Wire: what one side frames the other unframes to the same kind, conversation and payload
    (\<open>frames_roundtrip\<close>), resting on \<open>parse_json_print\<close>: the parser reads back what the printer wrote.
  \<^item> Store and authentication: the schema's promises hold after any sequence of calls under any
    faults; a token resolves exactly when a live stored one of an enabled user has its hash; revoked
    tokens and disabled users stay out.
  \<^item> Tunnel host: names are held by one goroutine each in every reachable state; a reply goes only to
    the request it names; a read loop is never stuck on a hand-over; nothing pending leaks; a
    connection handler returns and restores the client map; how a pool of names is given out.
  \<^item> Public listener and client: which headers are forwarded, exactly when the handler panics, what
    is replayed, what is answered and how bodies are rewritten; \<open>serve\<close> winds down on every
    interleaving, within its bounds; reconnecting returns exactly when it should.
  \<^item> Portal: every request is a run of the store calls that the abstract policy \<open>allowed_call\<close>
    grants the visitor (a refinement); only administrators change users; tokens and sessions are safe.
  \<^item> Programs: the first start yields one administrator whom the portal accepts; a command changes no
    more than it should; an interrupted host exits on every interleaving, and with which code;
    certificates and credentials are kept and read back. Across both programs: a visitor gets what
    the local service answered, and a sign-in gives a token the tunnel listener accepts.

  Bounds and fuel. \<open>parse_json\<close> gives its parser one unit of fuel more than the text has bytes and the
  PEM reader takes one a line, which is enough as each call uses up a byte or a line. The
  search for a free name takes the attempts the source does. A loop that need not end (reading,
  reconnecting) is given what its reads or rounds deliver, or is a \<open>partial_function\<close> with \<open>None\<close> for not
  returning, and that it does return is a property of its own. The limits of the source (10 dials,
  100 requests in work, a buffer of one reply) are its constants. A counter is an \<open>int\<close>
  unless it can wrap.

  Arguments of the model. Bcrypt, SHA-256, key generation, signing and certificate parsing; the gzip
  and brotli formats; compiling a regular expression; the local service; the WebSocket library; UUIDs
  and random numbers; the clock and the time zone; executing a template; the terminal; whether a file
  operation, a bind or an accept fails; the order in which a map is walked. What a property
  needs of these is a hypothesis of it.

  Not modelled. The HTML templates (the data given to them is modelled) and the C# program under
  \<open>_legacy\<close>. Bytes on the network and TLS: a request arrives parsed, a listener binds and
  accepts or fails to. Log calls in the components and the banner of \<open>PrintLogo\<close>, which do not bear on
  any state. The decoder's nesting limit of 10000, which the messages do not come near. Case folding
  and white space beyond ASCII, and the zone of an IPv6 address. A configuration that repeats a list three times
  with changing lengths, where Go's decoder shows elements of an earlier one again. Data races inside one critical
  section, which the mutex rules out, and the scheduler's fairness: a closing phase ends under every
  order of steps, and a property needing more says so.
\<close>

end
